(* ===== verification/Prelude.thy ===== *)
theory Prelude
  imports Main "HOL-Library.Sublist"
begin

text \<open>
  Shared vocabulary of the Diva front-end model: the JavaScript value conventions the
  three source files rely on (array reads that may be \<open>undefined\<close>, the \<open>||\<close> operator on
  strings, \<open>String.split\<close> followed by \<open>Array.pop\<close>, ASCII \<open>toUpperCase\<close>), the clamping a
  range slider performs, and the generic lemmas on them that the component theories use
  through the \<open>js_simps\<close> collection.
  JavaScript numbers are modelled as \<open>int\<close>: every number of the model comes from a
  slider with step 1 or an integer literal, so no fractional value arises.
\<close>

named_theorems js_simps "evaluation rules for the JavaScript helpers"

type_synonym js_string = string
type_synonym time = nat

subsection \<open>Array reads\<close>

text \<open>\<open>arr[i]\<close> in JavaScript: the element, or \<open>undefined\<close> (here \<open>None\<close>) out of range.\<close>

definition js_index :: "'a list \<Rightarrow> nat \<Rightarrow> 'a option" where
  "js_index xs i = (if i < length xs then Some (xs ! i) else None)"

lemma js_index_Cons_0 [simp, js_simps]: "js_index (x # xs) 0 = Some x"
  by (simp add: js_index_def)

lemma js_index_Cons_Suc [simp, js_simps]: "js_index (x # xs) (Suc i) = js_index xs i"
  by (simp add: js_index_def)

lemma js_index_Nil [simp, js_simps]: "js_index [] i = None"
  by (simp add: js_index_def)

lemma js_index_1 [simp, js_simps]: "js_index (x # xs) 1 = js_index xs 0"
  by (simp add: js_index_def)

lemma js_index_Some_iff: "js_index xs i = Some v \<longleftrightarrow> i < length xs \<and> xs ! i = v"
  by (auto simp: js_index_def)

subsection \<open>Strings\<close>

text \<open>\<open>a || b\<close> on strings: the empty string is falsy.\<close>

definition js_str_or :: "js_string \<Rightarrow> js_string \<Rightarrow> js_string" where
  "js_str_or a b = (if a = [] then b else a)"

lemma js_str_or_simps [simp, js_simps]:
  "js_str_or [] b = b" "js_str_or (c # cs) b = c # cs"
  by (simp_all add: js_str_or_def)

text \<open>\<open>s.split(sep)\<close> for a one-character separator: the pieces between separators,
  always at least one (possibly empty) piece.\<close>

fun js_split :: "char \<Rightarrow> js_string \<Rightarrow> js_string list" where
  "js_split sep [] = [[]]"
| "js_split sep (c # cs) =
     (if c = sep then [] # js_split sep cs
      else (case js_split sep cs of p # ps \<Rightarrow> (c # p) # ps | [] \<Rightarrow> [[c]]))"

text \<open>\<open>arr.pop()\<close>, read for its result: the last element, \<open>undefined\<close> on an empty array.\<close>

definition js_pop :: "'a list \<Rightarrow> 'a option" where
  "js_pop xs = (if xs = [] then None else Some (last xs))"

lemma js_split_nonempty [simp]: "js_split sep s \<noteq> []"
  by (induction sep s rule: js_split.induct) (auto split: list.splits)

lemma js_split_no_sep: "p \<in> set (js_split sep s) \<Longrightarrow> sep \<notin> set p"
proof (induction sep s arbitrary: p rule: js_split.induct)
  case (1 sep)
  then show ?case by simp
next
  case (2 sep c cs)
  then show ?case by (auto split: if_splits list.splits)
qed

lemma js_split_no_sep_id: "sep \<notin> set s \<Longrightarrow> js_split sep s = [s]"
  by (induction sep s rule: js_split.induct) auto

text \<open>The last piece is what follows the last separator: the text before it is empty
  when there is a single piece, and otherwise ends with the separator.\<close>

lemma js_split_last_suffix:
  "\<exists>pre. s = pre @ last (js_split sep s)
     \<and> (if length (js_split sep s) = 1 then pre = [] else pre \<noteq> [] \<and> last pre = sep)"
proof (induction sep s rule: js_split.induct)
  case (1 sep)
  then show ?case by simp
next
  case (2 sep c cs)
  show ?case
  proof (cases "c = sep")
    case True
    with "2.IH"(1) obtain pre where pre: "cs = pre @ last (js_split sep cs)"
      and lp: "pre = [] \<or> last pre = sep" by (auto split: if_splits)
    with True show ?thesis by (intro exI [of _ "c # pre"]) auto
  next
    case False
    obtain p ps where sp: "js_split sep cs = p # ps" by (cases "js_split sep cs") auto
    from "2.IH"(2) [OF False] obtain pre where pre: "cs = pre @ last (p # ps)"
      and lp: "if length (p # ps) = 1 then pre = [] else pre \<noteq> [] \<and> last pre = sep" by (auto simp: sp)
    show ?thesis
    proof (cases "ps = []")
      case True
      with pre lp False sp show ?thesis by simp
    next
      case False
      with pre lp \<open>c \<noteq> sep\<close> sp show ?thesis by (intro exI [of _ "c # pre"]) simp
    qed
  qed
qed

lemma js_pop_Some [simp, js_simps]: "xs \<noteq> [] \<Longrightarrow> js_pop xs = Some (last xs)"
  by (simp add: js_pop_def)

text \<open>\<open>String.prototype.toUpperCase\<close> on one character; the model's characters are
  bytes, and only the ASCII letters change.\<close>

definition js_upper :: "char \<Rightarrow> char" where
  "js_upper c = (let n = (of_char c :: nat) in if 97 \<le> n \<and> n \<le> 122 then char_of (n - 32) else c)"

text \<open>\<open>s.charAt(0).toUpperCase() + s.slice(1)\<close>.\<close>

fun js_capitalize :: "js_string \<Rightarrow> js_string" where
  "js_capitalize [] = []"
| "js_capitalize (c # cs) = js_upper c # cs"

lemma js_capitalize_length [simp]: "length (js_capitalize s) = length s"
  by (cases s) simp_all

lemma js_capitalize_tl [simp]: "tl (js_capitalize s) = tl s"
  by (cases s) simp_all

subsection \<open>Range clamping\<close>

definition clamp :: "int \<Rightarrow> int \<Rightarrow> int \<Rightarrow> int" where
  "clamp lo hi v = min hi (max lo v)"

lemma clamp_bounds [intro]: "lo \<le> hi \<Longrightarrow> lo \<le> clamp lo hi v \<and> clamp lo hi v \<le> hi"
  by (simp add: clamp_def)

lemma clamp_id [simp]: "lo \<le> v \<Longrightarrow> v \<le> hi \<Longrightarrow> clamp lo hi v = v"
  by (simp add: clamp_def)

subsection \<open>Numbers as text\<close>

text \<open>The decimal text of a number, as a JSX interpolation \<open>{n}\<close> or string
  concatenation prints an integral JavaScript number.\<close>

fun nat_digits :: "nat \<Rightarrow> js_string" where
  "nat_digits n = (if n < 10 then [char_of (48 + n)] else nat_digits (n div 10) @ [char_of (48 + n mod 10)])"

declare nat_digits.simps [simp del]

definition js_num_str :: "int \<Rightarrow> js_string" where
  "js_num_str i = (if i < 0 then CHR ''-'' # nat_digits (nat (- i)) else nat_digits (nat i))"

text \<open>Reading the digits back: \<open>nat_digits\<close> is a faithful decimal printer (\<open>nat_digits_val\<close>).\<close>

definition digit_val :: "char \<Rightarrow> nat" where
  "digit_val c = of_char c - 48"

definition digits_val :: "js_string \<Rightarrow> nat" where
  "digits_val s = foldl (\<lambda>acc c. 10 * acc + digit_val c) 0 s"

lemma digit_val_char [simp]: "d < 10 \<Longrightarrow> digit_val (char_of (48 + d)) = d"
  by (simp add: digit_val_def of_char_of)

lemma digits_val_snoc [simp]: "digits_val (s @ [c]) = 10 * digits_val s + digit_val c"
  by (simp add: digits_val_def)

lemma nat_digits_val: "digits_val (nat_digits n) = n"
proof (induction n rule: nat_digits.induct)
  case (1 n)
  show ?case
  proof (cases "n < 10")
    case True
    then show ?thesis by (simp add: nat_digits.simps [of n] digits_val_def)
  next
    case False
    with "1.IH" show ?thesis by (simp add: nat_digits.simps [of n])
  qed
qed

lemma nat_digits_nonempty [simp]: "nat_digits n \<noteq> []"
  by (subst nat_digits.simps) simp

subsection \<open>Lists of events\<close>

text \<open>A run of a partial step function over a list of events: \<open>None\<close> as soon as an event
  is not enabled. Every component theory instantiates it with its own step.\<close>

fun run_opt :: "('s \<Rightarrow> 'e \<Rightarrow> 's option) \<Rightarrow> 's \<Rightarrow> 'e list \<Rightarrow> 's option" where
  "run_opt f s [] = Some s"
| "run_opt f s (e # es) = (case f s e of None \<Rightarrow> None | Some s' \<Rightarrow> run_opt f s' es)"

lemma run_opt_append:
  "run_opt f s (es @ fs) = (case run_opt f s es of None \<Rightarrow> None | Some t \<Rightarrow> run_opt f t fs)"
  by (induction es arbitrary: s) (auto split: option.splits)

lemma run_opt_invariant:
  assumes step: "\<And>s e s'. P s \<Longrightarrow> f s e = Some s' \<Longrightarrow> P s'"
  shows "P s \<Longrightarrow> run_opt f s es = Some t \<Longrightarrow> P t"
proof (induction es arbitrary: s)
  case Nil
  then show ?case by simp
next
  case (Cons e es)
  then obtain s' where "f s e = Some s'" and "run_opt f s' es = Some t"
    by (auto split: option.splits)
  with Cons.prems(1) step Cons.IH show ?case by blast
qed

text \<open>Simulation: when an abstraction \<open>\<alpha>\<close> maps every step of \<open>f\<close> from a state satisfying
  an invariant \<open>P\<close> to the step of \<open>g\<close>, enabledness included, it maps whole runs.\<close>

lemma run_opt_simulation:
  assumes step: "\<And>s e. P s \<Longrightarrow> map_option \<alpha> (f s e) = g (\<alpha> s) e"
    and inv: "\<And>s e s'. P s \<Longrightarrow> f s e = Some s' \<Longrightarrow> P s'"
  shows "P s \<Longrightarrow> map_option \<alpha> (run_opt f s es) = run_opt g (\<alpha> s) es"
proof (induction es arbitrary: s)
  case Nil
  then show ?case by simp
next
  case (Cons e es)
  show ?case
  proof (cases "f s e")
    case None
    from step [OF Cons.prems, of e] None have "g (\<alpha> s) e = None" by simp
    with None show ?thesis by simp
  next
    case (Some s')
    with step [OF Cons.prems, of e] have "g (\<alpha> s) e = Some (\<alpha> s')" by simp
    with Some Cons.IH [OF inv [OF Cons.prems Some]] show ?thesis by simp
  qed
qed

lemma map_upt_update:
  "k < n \<Longrightarrow> (map f [0..<n])[k := x] = map (f(k := x)) [0..<n]"
  by (rule nth_equalityI) (auto simp: nth_list_update)

end
