(* ===== verification/Request.thy ===== *)
theory Request
  imports Prelude
begin

text \<open>
  The generation request and the form it is built from (src/src/App.tsx): the
  \<open>GenShape\<close> interface, the six \<open>useState\<close> cells of \<open>OperationInitializer\<close>, the
  file-picker result handler and the construction of \<open>reqData\<close> in
  \<open>submitGeneration\<close>. The spec's contract for a request (section 3 of the spec) is
  stated as \<open>request_ok\<close>; the code performs no validation, so the contract can only hold
  through what the form lets the user enter (theory Controls).
\<close>

subsection \<open>Data\<close>

text \<open>\<open>interface GenShape\<close>. The value built by \<open>submitGeneration\<close> is cast with
  \<open>as GenShape\<close> but read from \<open>videoLength[0]\<close> and \<open>videoLength[1]\<close>, which are
  \<open>undefined\<close> on a short array: the two length fields keep that possibility.\<close>

record gen_shape =
  minLength :: "int option"
  maxLength :: "int option"
  captionFont :: js_string
  extraContext :: js_string
  quantity :: int

text \<open>The state cells of \<open>OperationInitializer\<close>, in declaration order.\<close>

record form_state =
  selectedFile :: "js_string option"
  activeControl :: "js_string option"
  videoLength :: "int list"
  contextStr :: js_string
  captionFontSel :: js_string
  videoCount :: int

definition init_form :: form_state where
  "init_form = \<lparr>selectedFile = None, activeControl = None, videoLength = [30, 180],
     contextStr = [], captionFontSel = ''default'', videoCount = 12\<rparr>"

subsection \<open>Operations\<close>

text \<open>\<open>submitGeneration\<close>, line 99: the request object, read from the form at the click.\<close>

definition build_req :: "'a form_state_scheme \<Rightarrow> gen_shape" where
  "build_req f = \<lparr>minLength = js_index (videoLength f) 0, maxLength = js_index (videoLength f) 1,
     captionFont = captionFontSel f, extraContext = contextStr f, quantity = videoCount f\<rparr>"

text \<open>\<open>handleButtonClick\<close>: the dialog's result (a path, or \<open>null\<close> when cancelled) is
  stored as it is.\<close>

definition handle_file_pick :: "'a form_state_scheme \<Rightarrow> js_string option \<Rightarrow> 'a form_state_scheme" where
  "handle_file_pick f file = f\<lparr>selectedFile := file\<rparr>"

text \<open>The file line of the form (lines 138--142): the last path segment of the selected
  file, or the placeholder.\<close>

definition file_label :: "'a form_state_scheme \<Rightarrow> js_string" where
  "file_label f = (case selectedFile f of
       None \<Rightarrow> ''No file selected''
     | Some p \<Rightarrow> (if p = [] then ''No file selected''
                 else ''Selected file: '' @ the (js_pop (js_split CHR ''/'' p))))"

subsection \<open>The spec's contract\<close>

definition caption_fonts :: "js_string list" where
  "caption_fonts = [''none'', ''default'', ''arial'', ''helvetica'', ''times'']"

definition request_ok :: "gen_shape \<Rightarrow> bool" where
  "request_ok r \<longleftrightarrow>
     (case (minLength r, maxLength r) of
        (Some lo, Some hi) \<Rightarrow> 20 \<le> lo \<and> lo \<le> hi \<and> hi \<le> 180
      | _ \<Rightarrow> False)
     \<and> captionFont r \<in> set caption_fonts \<and> 1 \<le> quantity r \<and> quantity r \<le> 24"

subsection \<open>Lemmas\<close>

lemma build_req_fields [simp]:
  "minLength (build_req f) = js_index (videoLength f) 0"
  "maxLength (build_req f) = js_index (videoLength f) 1"
  "captionFont (build_req f) = captionFontSel f"
  "extraContext (build_req f) = contextStr f"
  "quantity (build_req f) = videoCount f"
  by (simp_all add: build_req_def)

subsection \<open>Properties\<close>

text \<open>C13. The request does not depend on the selected file: \<open>reqData\<close> has no field for
  it, so the backend is never told which video to cut.\<close>

theorem build_req_ignores_selected_file:
  "build_req (handle_file_pick f file) = build_req f"
  by (simp add: build_req_def handle_file_pick_def)

text \<open>C23. The file line shows the base name of the selected path: the path is some
  directory part followed by the shown text, the shown text contains no \<open>/\<close>, and the
  directory part is empty or ends with \<open>/\<close>. So the shown text is exactly what follows
  the last \<open>/\<close> (empty for a path ending with \<open>/\<close>).\<close>

theorem file_label_basename:
  assumes "selectedFile f = Some p" and "p \<noteq> []"
  shows "\<exists>dir b. p = dir @ b \<and> file_label f = ''Selected file: '' @ b \<and> CHR ''/'' \<notin> set b
           \<and> (dir = [] \<or> last dir = CHR ''/'')"
proof -
  let ?b = "last (js_split CHR ''/'' p)"
  from js_split_last_suffix [of p "CHR ''/''"] obtain dir where "p = dir @ ?b"
    and "dir = [] \<or> last dir = CHR ''/''" by (auto split: if_splits)
  moreover have "CHR ''/'' \<notin> set ?b"
    by (rule js_split_no_sep [of _ _ p]) simp
  moreover have "file_label f = ''Selected file: '' @ ?b"
    using assms by (simp add: file_label_def)
  ultimately show ?thesis by blast
qed

theorem file_label_basename_witness:
  "selectedFile (handle_file_pick init_form (Some ''/home/u/clip.mp4'')) = Some ''/home/u/clip.mp4''
   \<and> file_label (handle_file_pick init_form (Some ''/home/u/clip.mp4'')) = ''Selected file: clip.mp4''"
proof -
  let ?f = "handle_file_pick init_form (Some ''/home/u/clip.mp4'')"
  have s: "selectedFile ?f = Some ''/home/u/clip.mp4''" by (simp add: handle_file_pick_def)
  from file_label_basename [OF s] obtain dir b where "''/home/u/clip.mp4'' = dir @ b"
    and l: "file_label ?f = ''Selected file: '' @ b" and "CHR ''/'' \<notin> set b"
    and "dir = [] \<or> last dir = CHR ''/''" by auto
  then have "b = ''clip.mp4''" by (auto simp: append_eq_Cons_conv Cons_eq_append_conv)
  with l s show ?thesis by simp
qed

end
