(* ===== verification/Controls.thy ===== *)
theory Controls
  imports Request
begin

text \<open>
  The parameter controls (src/src/components/macro/actionSelector.tsx, \<open>VideoControls\<close>)
  and the user interactions of the form they edit. The panel shown is chosen by
  \<open>renderControlPanel\<close> from \<open>activeControl\<close>; each panel's widget writes one cell of
  the form. The range sliders and the select are Radix UI widgets, outside this
  repository: \<open>slider_move\<close> models what a Radix slider passes to \<open>onValueChange\<close>
  when a thumb is dragged (the thumb's new position snapped to the step, clamped to
  \<open>[min, max]\<close>, the values kept in ascending order), and a select can only emit the value
  of one of its items. \<open>ui_step\<close> is one user interaction; an interaction on a widget that
  is not on screen is not enabled (\<open>None\<close>). The main results: every interaction keeps
  \<open>form_inv\<close>, so every request built from a reachable form meets the spec's contract
  \<open>request_ok\<close>.
\<close>

subsection \<open>Panels and buttons\<close>

datatype panel = LengthPanel | ContextPanel | CaptionsPanel | AmountPanel | DefaultPanel

text \<open>\<open>renderControlPanel\<close>: the \<open>switch (activeControl)\<close>, lines 37--118.\<close>

definition render_control_panel :: "js_string option \<Rightarrow> panel" where
  "render_control_panel a =
     (if a = Some ''length'' then LengthPanel
      else if a = Some ''context'' then ContextPanel
      else if a = Some ''captions'' then CaptionsPanel
      else if a = Some ''amount'' then AmountPanel
      else DefaultPanel)"

text \<open>\<open>controlButtons\<close>, lines 120--125: name and label of each button (icons omitted).\<close>

definition control_buttons :: "(js_string \<times> js_string) list" where
  "control_buttons = [(''length'', ''Length''), (''context'', ''Context''),
     (''captions'', ''Captions''), (''amount'', ''Amount'')]"

text \<open>A button's \<open>onClick\<close>, line 140: the clicked control is opened, or closed when it is
  already open.\<close>

definition click_control :: "'a form_state_scheme \<Rightarrow> js_string \<Rightarrow> 'a form_state_scheme" where
  "click_control f name =
     f\<lparr>activeControl := (if activeControl f = Some name then None else Some name)\<rparr>"

text \<open>The items of the caption select, lines 81--85.\<close>

definition caption_items :: "js_string list" where
  "caption_items = [''none'', ''default'', ''arial'', ''helvetica'', ''times'']"

text \<open>The amount panel's caption, line 105.\<close>

definition count_label :: "int \<Rightarrow> js_string" where
  "count_label n = ''Generate '' @ js_num_str n @ '' video'' @ (if n > 1 then ''s'' else [])"

subsection \<open>Widgets\<close>

text \<open>A Radix range slider with step 1: dragging thumb \<open>i\<close> to \<open>v\<close>.\<close>

definition slider_move :: "int \<Rightarrow> int \<Rightarrow> int list \<Rightarrow> nat \<Rightarrow> int \<Rightarrow> int list option" where
  "slider_move lo hi vals i v =
     (if i < length vals then Some (sort (vals[i := clamp lo hi v])) else None)"

text \<open>The amount slider's \<open>onValueChange\<close>, line 101: \<open>setVideoCount(e[0])\<close>. A slider
  never passes an empty array, so the \<open>undefined\<close> case is not enabled.\<close>

definition on_amount_change :: "'a form_state_scheme \<Rightarrow> int list \<Rightarrow> 'a form_state_scheme option" where
  "on_amount_change f e = map_option (\<lambda>c. f\<lparr>videoCount := c\<rparr>) (js_index e 0)"

subsection \<open>Interactions\<close>

text \<open>The form together with the hover cell of \<open>VideoControls\<close> (line 34).\<close>

record ui_state = form_state +
  hoveredControl :: "js_string option"

definition init_ui :: ui_state where
  "init_ui = \<lparr>selectedFile = None, activeControl = None, videoLength = [30, 180],
     contextStr = [], captionFontSel = ''default'', videoCount = 12, hoveredControl = None\<rparr>"

datatype ui_event =
    PickFile "js_string option"
  | ClickControl js_string
  | HoverEnter js_string
  | HoverLeave
  | SlideLength nat int
  | EditContext js_string
  | PickFont js_string
  | SlideAmount nat int

fun ui_step :: "ui_state \<Rightarrow> ui_event \<Rightarrow> ui_state option" where
  "ui_step s (PickFile r) = Some (handle_file_pick s r)"
| "ui_step s (ClickControl n) =
     (if n \<in> set (map fst control_buttons) then Some (click_control s n) else None)"
| "ui_step s (HoverEnter n) =
     (if n \<in> set (map fst control_buttons) then Some (s\<lparr>hoveredControl := Some n\<rparr>) else None)"
| "ui_step s HoverLeave = Some (s\<lparr>hoveredControl := None\<rparr>)"
| "ui_step s (SlideLength i v) =
     (if render_control_panel (activeControl s) = LengthPanel
      then map_option (\<lambda>vs. s\<lparr>videoLength := vs\<rparr>) (slider_move 20 180 (videoLength s) i v)
      else None)"
| "ui_step s (EditContext t) =
     (if render_control_panel (activeControl s) = ContextPanel
      then Some (s\<lparr>contextStr := t\<rparr>) else None)"
| "ui_step s (PickFont t) =
     (if render_control_panel (activeControl s) = CaptionsPanel \<and> t \<in> set caption_items
      then Some (s\<lparr>captionFontSel := t\<rparr>) else None)"
| "ui_step s (SlideAmount i v) =
     (if render_control_panel (activeControl s) = AmountPanel
      then (case slider_move 1 24 [videoCount s] i v of
              None \<Rightarrow> None
            | Some e \<Rightarrow> on_amount_change s e)
      else None)"

definition ui_run :: "ui_event list \<Rightarrow> ui_state option" where
  "ui_run es = run_opt ui_step init_ui es"

subsection \<open>The form invariant\<close>

definition form_inv :: "'a form_state_scheme \<Rightarrow> bool" where
  "form_inv f \<longleftrightarrow>
     (case videoLength f of [lo, hi] \<Rightarrow> 20 \<le> lo \<and> lo \<le> hi \<and> hi \<le> 180 | _ \<Rightarrow> False)
     \<and> captionFontSel f \<in> set caption_fonts \<and> 1 \<le> videoCount f \<and> videoCount f \<le> 24"

lemma sort_pair [simp]: "sort [a, b :: int] = (if a \<le> b then [a, b] else [b, a])"
  by simp

lemma slider_move_pair:
  assumes "slider_move lo hi [a, b] i v = Some vs" and "lo \<le> hi"
    and "lo \<le> a" and "a \<le> hi" and "lo \<le> b" and "b \<le> hi"
  shows "\<exists>x y. vs = [x, y] \<and> lo \<le> x \<and> x \<le> y \<and> y \<le> hi"
proof -
  have i: "i = 0 \<or> i = 1" using assms(1) by (auto simp: slider_move_def split: if_splits)
  have c: "lo \<le> clamp lo hi v \<and> clamp lo hi v \<le> hi" using assms(2) by (rule clamp_bounds)
  from i show ?thesis
  proof
    assume "i = 0"
    with assms(1) have "vs = sort [clamp lo hi v, b]" by (simp add: slider_move_def)
    with c assms(5,6) show ?thesis by (auto split: if_splits)
  next
    assume "i = 1"
    with assms(1) have "vs = sort [a, clamp lo hi v]" by (simp add: slider_move_def)
    with c assms(3,4) show ?thesis by (auto split: if_splits)
  qed
qed

lemma slider_move_single:
  assumes "slider_move lo hi [a] i v = Some e" and "lo \<le> hi"
  shows "e = [clamp lo hi v] \<and> lo \<le> clamp lo hi v \<and> clamp lo hi v \<le> hi"
  using assms clamp_bounds [OF assms(2), of v] by (auto simp: slider_move_def split: if_splits)

lemma caption_items_fonts [simp]: "set caption_items = set caption_fonts"
  by (simp add: caption_items_def caption_fonts_def)

lemma form_inv_init: "form_inv init_ui"
  by (simp add: form_inv_def init_ui_def caption_fonts_def)

lemma form_inv_request_ok: "form_inv f \<Longrightarrow> request_ok (build_req f)"
  by (auto simp: form_inv_def request_ok_def split: list.splits)

lemma ui_step_form_inv_length:
  assumes "form_inv s" and "slider_move 20 180 (videoLength s) i v = Some vs"
  shows "form_inv (s\<lparr>videoLength := vs\<rparr>)"
proof -
  from assms(1) obtain a b where ab: "videoLength s = [a, b]" "20 \<le> a" "a \<le> b" "b \<le> 180"
    by (auto simp: form_inv_def split: list.splits)
  with assms(2) have "\<exists>x y. vs = [x, y] \<and> 20 \<le> x \<and> x \<le> y \<and> y \<le> 180"
    by (intro slider_move_pair [of 20 180 a b i v]) auto
  with assms(1) show ?thesis by (auto simp: form_inv_def)
qed

lemma ui_step_form_inv_amount:
  assumes "form_inv s" and "slider_move 1 24 [videoCount s] i v = Some e"
    and "on_amount_change s e = Some s'"
  shows "form_inv s'"
proof -
  from assms(2) have "e = [clamp 1 24 v] \<and> 1 \<le> clamp 1 24 v \<and> clamp 1 24 v \<le> 24"
    by (rule slider_move_single) simp
  with assms(1,3) show ?thesis
    by (auto simp: form_inv_def on_amount_change_def)
qed

lemma ui_step_form_inv: "form_inv s \<Longrightarrow> ui_step s e = Some s' \<Longrightarrow> form_inv s'"
proof (cases e)
  case (SlideLength i v)
  assume "form_inv s" "ui_step s e = Some s'"
  with SlideLength show ?thesis
    by (auto split: if_splits intro: ui_step_form_inv_length)
next
  case (SlideAmount i v)
  assume "form_inv s" "ui_step s e = Some s'"
  with SlideAmount show ?thesis
    by (auto split: if_splits option.splits intro: ui_step_form_inv_amount)
qed (auto simp: form_inv_def handle_file_pick_def click_control_def split: if_splits)

subsection \<open>Properties\<close>

text \<open>C14. A control button toggles its panel: clicking a control that is not open opens
  exactly its panel, and clicking it again closes every panel.\<close>

theorem click_control_toggles:
  assumes "activeControl f \<noteq> Some n"
  shows "activeControl (click_control f n) = Some n
         \<and> click_control (click_control f n) n = f\<lparr>activeControl := None\<rparr>"
  using assms by (simp add: click_control_def)

theorem click_control_toggles_witness:
  "activeControl init_ui \<noteq> Some ''length''
   \<and> render_control_panel (activeControl (click_control init_ui ''length'')) = LengthPanel
   \<and> render_control_panel (activeControl (click_control (click_control init_ui ''length'') ''length''))
       = DefaultPanel"
proof -
  have a: "activeControl init_ui \<noteq> Some ''length''" by (simp add: init_ui_def)
  from click_control_toggles [OF a] a show ?thesis by (simp add: render_control_panel_def)
qed

text \<open>C15. The amount slider, when its panel is shown, sets the count to the dragged
  position clamped to \<open>[1, 24]\<close>.\<close>

theorem slide_amount_sets_count:
  assumes "render_control_panel (activeControl s) = AmountPanel"
  shows "ui_step s (SlideAmount 0 v) = Some (s\<lparr>videoCount := clamp 1 24 v\<rparr>)"
  using assms by (simp add: slider_move_def on_amount_change_def)

theorem slide_amount_sets_count_witness:
  "render_control_panel (activeControl (init_ui\<lparr>activeControl := Some ''amount''\<rparr>)) = AmountPanel
   \<and> ui_step (init_ui\<lparr>activeControl := Some ''amount''\<rparr>) (SlideAmount 0 40)
       = Some (init_ui\<lparr>activeControl := Some ''amount'', videoCount := 24\<rparr>)"
proof -
  have a: "render_control_panel (activeControl (init_ui\<lparr>activeControl := Some ''amount''\<rparr>)) = AmountPanel"
    by (simp add: render_control_panel_def)
  from slide_amount_sets_count [OF a, of 40] a show ?thesis by (simp add: clamp_def)
qed

text \<open>C16. Dragging a thumb of the length slider keeps the two lengths ordered and within
  \<open>[20, 180]\<close>, and the dragged (clamped) position is one of them.\<close>

theorem slide_length_ordered:
  assumes "form_inv s" and "ui_step s (SlideLength i v) = Some s'"
  shows "\<exists>lo hi. videoLength s' = [lo, hi] \<and> 20 \<le> lo \<and> lo \<le> hi \<and> hi \<le> 180
           \<and> clamp 20 180 v \<in> {lo, hi}"
proof -
  from assms(1) obtain a b where ab: "videoLength s = [a, b]" by (auto simp: form_inv_def split: list.splits)
  from assms(2) obtain vs where sm: "slider_move 20 180 (videoLength s) i v = Some vs"
    and s': "s' = s\<lparr>videoLength := vs\<rparr>" by (auto split: if_splits)
  from sm ab have i: "i < 2" and vs: "vs = sort ([a, b][i := clamp 20 180 v])"
    by (auto simp: slider_move_def split: if_splits)
  have "clamp 20 180 v \<in> set ([a, b][i := clamp 20 180 v])" using i by (intro set_update_memI) simp
  then have "clamp 20 180 v \<in> set vs" using vs by simp
  moreover from ui_step_form_inv [OF assms] obtain lo hi
    where "videoLength s' = [lo, hi]" "20 \<le> lo" "lo \<le> hi" "hi \<le> 180"
    by (auto simp: form_inv_def split: list.splits)
  ultimately show ?thesis using s' by auto
qed

theorem slide_length_ordered_witness:
  "form_inv (init_ui\<lparr>activeControl := Some ''length''\<rparr>)
   \<and> ui_step (init_ui\<lparr>activeControl := Some ''length''\<rparr>) (SlideLength 1 10)
       = Some (init_ui\<lparr>activeControl := Some ''length'', videoLength := [20, 30]\<rparr>)
   \<and> (\<exists>lo hi. [20, 30] = [lo, hi :: int] \<and> 20 \<le> lo \<and> lo \<le> hi \<and> hi \<le> 180 \<and> clamp 20 180 10 \<in> {lo, hi})"
proof -
  have f: "form_inv (init_ui\<lparr>activeControl := Some ''length''\<rparr>)"
    by (simp add: form_inv_def init_ui_def caption_fonts_def)
  have st: "ui_step (init_ui\<lparr>activeControl := Some ''length''\<rparr>) (SlideLength 1 10)
       = Some (init_ui\<lparr>activeControl := Some ''length'', videoLength := [20, 30]\<rparr>)"
    by (simp add: render_control_panel_def slider_move_def clamp_def init_ui_def)
  from slide_length_ordered [OF f st] f st show ?thesis by (simp add: init_ui_def)
qed

text \<open>C26. While the length panel is not shown, no interaction changes the lengths: the
  slider that writes them is only rendered in that panel.\<close>

theorem hidden_length_panel_frame:
  assumes "render_control_panel (activeControl s) \<noteq> LengthPanel" and "ui_step s e = Some s'"
  shows "videoLength s' = videoLength s"
  using assms
  by (cases e) (auto simp: handle_file_pick_def click_control_def on_amount_change_def split: if_splits option.splits)

theorem hidden_length_panel_frame_witness:
  "render_control_panel (activeControl init_ui) \<noteq> LengthPanel
   \<and> ui_step init_ui (ClickControl ''length'') = Some (init_ui\<lparr>activeControl := Some ''length''\<rparr>)
   \<and> videoLength (init_ui\<lparr>activeControl := Some ''length''\<rparr>) = videoLength init_ui"
proof -
  have h: "render_control_panel (activeControl init_ui) \<noteq> LengthPanel"
    by (simp add: render_control_panel_def init_ui_def)
  have st: "ui_step init_ui (ClickControl ''length'') = Some (init_ui\<lparr>activeControl := Some ''length''\<rparr>)"
    by (simp add: control_buttons_def click_control_def init_ui_def)
  from hidden_length_panel_frame [OF h st] h st show ?thesis by simp
qed

end
