(* ===== verification/Notify.thy ===== *)
theory Notify
  imports Prelude
begin

text \<open>
  Notifications. The three \<open>toast(...)\<close> calls of src/src/App.tsx (the error-event handler,
  lines 36--43; the success and failure branches of \<open>submitGeneration\<close>, lines 103--109
  and 113--121) build a toast from a title, a description, an action and an optional
  duration. The toast queue itself is the \<open>sonner\<close> library, outside this repository, and
  is modelled from its documented behaviour: \<open>toast()\<close> adds a toast, durations are in
  milliseconds with a default of 4000, and clicking a toast's action runs its \<open>onClick\<close>
  and then dismisses the toast. Every action of this program is
  \<open>() => console.log("Not yet implemented")\<close>, which changes no state.
  Dates (\<open>new Date().toLocaleDateString()\<close>) are kept as the creation time.
\<close>

datatype toast_desc =
    DescDate time
  | DescError js_string time
  | DescEvent js_string time

record toast =
  title :: js_string
  description :: toast_desc
  action_label :: js_string
  duration :: "nat option"
  created :: time

text \<open>sonner's toaster: the toasts in dispatch order, each with its id.\<close>

record toaster =
  next_toast :: nat
  toasts :: "(nat \<times> toast) list"

definition init_toaster :: toaster where
  "init_toaster = \<lparr>next_toast = 0, toasts = []\<rparr>"

subsection \<open>The call sites\<close>

text \<open>Lines 36--43: \<open>toast(id + "Internal System Error", ...)\<close> with \<open>duration: 3\<close>; the
  \<open>id\<close> is the event's \<open>id\<close> field, a number.\<close>

definition event_toast :: "nat \<Rightarrow> js_string \<Rightarrow> time \<Rightarrow> toast" where
  "event_toast eid payload now =
     \<lparr>title = js_num_str (int eid) @ ''Internal System Error'', description = DescEvent payload now,
      action_label = ''Retry'', duration = Some 3, created = now\<rparr>"

text \<open>Lines 103--109: the acknowledgment of \<open>generate_cuts\<close>.\<close>

definition success_toast :: "time \<Rightarrow> toast" where
  "success_toast now =
     \<lparr>title = ''Video creation process initialized!'', description = DescDate now,
      action_label = ''Cancel'', duration = None, created = now\<rparr>"

text \<open>Lines 113--121: the rejection of \<open>generate_cuts\<close>, with the error's text.\<close>

definition failure_toast :: "js_string \<Rightarrow> time \<Rightarrow> toast" where
  "failure_toast err now =
     \<lparr>title = ''Internal System Error'', description = DescError err now,
      action_label = ''Retry'', duration = None, created = now\<rparr>"

subsection \<open>The toaster\<close>

definition dispatch :: "toaster \<Rightarrow> toast \<Rightarrow> toaster" where
  "dispatch q t = \<lparr>next_toast = Suc (next_toast q), toasts = toasts q @ [(next_toast q, t)]\<rparr>"

definition dispatch_all :: "toaster \<Rightarrow> toast list \<Rightarrow> toaster" where
  "dispatch_all q ts = foldl dispatch q ts"

definition default_duration :: nat where
  "default_duration = 4000"

definition toast_visible :: "time \<Rightarrow> toast \<Rightarrow> bool" where
  "toast_visible now t \<longleftrightarrow>
     created t \<le> now \<and> now < created t + (case duration t of None \<Rightarrow> default_duration | Some d \<Rightarrow> d)"

definition visible_toasts :: "toaster \<Rightarrow> time \<Rightarrow> toast list" where
  "visible_toasts q now = filter (toast_visible now) (map snd (toasts q))"

text \<open>Clicking the action of toast \<open>i\<close>: the \<open>onClick\<close> logs and returns, then the toast
  is dismissed.\<close>

definition click_action :: "toaster \<Rightarrow> nat \<Rightarrow> toaster" where
  "click_action q i = q\<lparr>toasts := filter (\<lambda>(j, _). j \<noteq> i) (toasts q)\<rparr>"

subsection \<open>Lemmas\<close>

lemma dispatch_toasts [simp]: "map snd (toasts (dispatch q t)) = map snd (toasts q) @ [t]"
  by (simp add: dispatch_def)

lemma dispatch_all_toasts [simp]:
  "map snd (toasts (dispatch_all q ts)) = map snd (toasts q) @ ts"
  by (induction ts arbitrary: q) (simp_all add: dispatch_all_def)

lemma dispatch_all_simps [simp]:
  "dispatch_all q [] = q" "dispatch_all q (t # ts) = dispatch_all (dispatch q t) ts"
  by (simp_all add: dispatch_all_def)

subsection \<open>Properties\<close>

text \<open>C18. Lifetimes of the three notifications. The error-event toast passes
  \<open>duration: 3\<close>, which sonner reads as milliseconds: it is visible for 3 ms only, while
  the submission toasts keep sonner's default of 4000 ms. The spec asks for a short but
  readable, configurable display time.\<close>

theorem toast_lifetimes:
  "(toast_visible t (event_toast lid p c) \<longleftrightarrow> c \<le> t \<and> t < c + 3)
   \<and> (toast_visible t (success_toast c) \<longleftrightarrow> c \<le> t \<and> t < c + 4000)
   \<and> (toast_visible t (failure_toast e c) \<longleftrightarrow> c \<le> t \<and> t < c + 4000)"
  by (simp add: toast_visible_def event_toast_def success_toast_def failure_toast_def
      default_duration_def)

end
