(* ===== verification/Events.thy ===== *)
theory Events
  imports Prelude
begin

text \<open>
  The error-event subscription of \<open>App\<close> (src/src/App.tsx, lines 28--50) over the Tauri
  event bus. The bus is outside this repository and is modelled from its documented
  contract: \<open>listen(name, handler)\<close> resolves, some time later, to an \<open>unlisten\<close>
  function and registers the handler under a fresh numeric id; \<open>unlisten()\<close> removes it;
  an emitted event runs every registered handler, in registration order, with an event
  whose \<open>id\<close> field is that handler's id.

  The effect: on each mount (an effect instance, numbered from 0) the async IIFE calls
  \<open>listen\<close> and awaits it; when the promise resolves, the closure variable \<open>unlisten\<close>
  of that instance is assigned. The cleanup returned to React runs
  \<open>if (unlisten) unlisten()\<close> on the same closure variable. Mount, resolution, cleanup
  and emission are separate steps whose order the scheduler chooses; the step for an
  event that is not enabled in a state is \<open>None\<close>.

  The theory ends with an abstract specification of the effect, one phase per instance,
  and the proof that the effect refines it on every sequence of events.
\<close>

subsection \<open>The event bus\<close>

record bus =
  listeners :: "nat list"
  next_listener :: nat

definition init_bus :: bus where
  "init_bus = \<lparr>listeners = [], next_listener = 0\<rparr>"

definition bus_listen :: "bus \<Rightarrow> bus \<times> nat" where
  "bus_listen b = (b\<lparr>listeners := listeners b @ [next_listener b],
                     next_listener := Suc (next_listener b)\<rparr>, next_listener b)"

definition bus_unlisten :: "nat \<Rightarrow> bus \<Rightarrow> bus" where
  "bus_unlisten lid b = b\<lparr>listeners := filter (\<lambda>j. j \<noteq> lid) (listeners b)\<rparr>"

text \<open>The handlers an emission of \<open>"error"\<close> runs: one per registered listener, each
  receiving that listener's id and the payload.\<close>

definition bus_emit :: "bus \<Rightarrow> js_string \<Rightarrow> (nat \<times> js_string) list" where
  "bus_emit b payload = map (\<lambda>lid. (lid, payload)) (listeners b)"

subsection \<open>The effect of \<open>App\<close>\<close>

record sub_state =
  sbus :: bus
  effects :: nat
  pending :: "nat list"
  unlisten_var :: "nat \<Rightarrow> nat option"
  cleaned :: "nat list"

definition init_sub :: sub_state where
  "init_sub = \<lparr>sbus = init_bus, effects = 0, pending = [], unlisten_var = (\<lambda>_. None),
     cleaned = []\<rparr>"

text \<open>The effect body, lines 29--45: a new instance whose \<open>listen\<close> call is in flight.\<close>

definition effect_mount :: "sub_state \<Rightarrow> sub_state" where
  "effect_mount s = s\<lparr>effects := Suc (effects s), pending := pending s @ [effects s]\<rparr>"

text \<open>Line 32: the awaited \<open>listen\<close> of instance \<open>k\<close> resolves and its result is stored in
  that instance's \<open>unlisten\<close>. The bus registers the handler and the promise resolves
  in one step here; an emission between the two would reach the handler exactly as it
  does after this step.\<close>

definition listen_resolve :: "sub_state \<Rightarrow> nat \<Rightarrow> sub_state option" where
  "listen_resolve s k =
     (if k \<in> set (pending s)
      then (let (b', lid) = bus_listen (sbus s)
            in Some (s\<lparr>sbus := b', unlisten_var := (unlisten_var s)(k := Some lid),
                       pending := remove1 k (pending s)\<rparr>))
      else None)"

text \<open>Line 47: the cleanup of instance \<open>k\<close>, run once by React when the instance is torn
  down: \<open>unlisten\<close> is called only if it has been assigned.\<close>

definition effect_cleanup :: "sub_state \<Rightarrow> nat \<Rightarrow> sub_state option" where
  "effect_cleanup s k =
     (if k < effects s \<and> k \<notin> set (cleaned s)
      then Some ((case unlisten_var s k of
                    None \<Rightarrow> s
                  | Some lid \<Rightarrow> s\<lparr>sbus := bus_unlisten lid (sbus s)\<rparr>)\<lparr>cleaned := k # cleaned s\<rparr>)
      else None)"

datatype sub_event = Mount | Resolve nat | Cleanup nat

fun sub_step :: "sub_state \<Rightarrow> sub_event \<Rightarrow> sub_state option" where
  "sub_step s Mount = Some (effect_mount s)"
| "sub_step s (Resolve k) = listen_resolve s k"
| "sub_step s (Cleanup k) = effect_cleanup s k"

subsection \<open>Well-formedness of the subscription state\<close>

text \<open>Registered listener ids are distinct and below the bus counter; a pending instance
  has no \<open>unlisten\<close> yet; every registered listener is the \<open>unlisten\<close> of exactly one
  instance, and that instance has resolved.\<close>

definition sub_inv :: "sub_state \<Rightarrow> bool" where
  "sub_inv s \<longleftrightarrow>
     distinct (listeners (sbus s)) \<and> distinct (pending s)
     \<and> (\<forall>lid \<in> set (listeners (sbus s)). lid < next_listener (sbus s))
     \<and> (\<forall>k \<in> set (pending s). k < effects s \<and> unlisten_var s k = None)
     \<and> (\<forall>k. k \<ge> effects s \<longrightarrow> unlisten_var s k = None \<and> k \<notin> set (cleaned s))
     \<and> (\<forall>k lid. unlisten_var s k = Some lid \<longrightarrow> lid < next_listener (sbus s))
     \<and> (\<forall>k j lid. unlisten_var s k = Some lid \<longrightarrow> unlisten_var s j = Some lid \<longrightarrow> k = j)
     \<and> (\<forall>lid \<in> set (listeners (sbus s)). \<exists>k. unlisten_var s k = Some lid)"

subsection \<open>Abstract specification of the subscription\<close>

text \<open>What the effect does, seen per instance: its \<open>listen\<close> is in flight
  (\<open>Listening\<close>), its handler is registered while it is mounted (\<open>Subscribed\<close>), it was
  torn down with \<open>listen\<close> still in flight (\<open>Orphaned\<close>), its handler was registered
  after its teardown and can no longer be removed (\<open>Leaked\<close>), or it is released
  (\<open>Closed\<close>). A mount adds a \<open>Listening\<close> instance; a resolution is enabled only for an
  instance whose \<open>listen\<close> is in flight, a cleanup only for one not yet torn down.\<close>

datatype phase = Listening | Subscribed | Orphaned | Leaked | Closed

fun phase_step :: "phase list \<Rightarrow> sub_event \<Rightarrow> phase list option" where
  "phase_step ps Mount = Some (ps @ [Listening])"
| "phase_step ps (Resolve k) =
     (if k < length ps then (case ps ! k of
         Listening \<Rightarrow> Some (ps[k := Subscribed])
       | Orphaned \<Rightarrow> Some (ps[k := Leaked])
       | _ \<Rightarrow> None) else None)"
| "phase_step ps (Cleanup k) =
     (if k < length ps then (case ps ! k of
         Listening \<Rightarrow> Some (ps[k := Orphaned])
       | Subscribed \<Rightarrow> Some (ps[k := Closed])
       | _ \<Rightarrow> None) else None)"

text \<open>The phases whose handler runs on an emission.\<close>

definition registered :: "phase \<Rightarrow> bool" where
  "registered p \<longleftrightarrow> p = Subscribed \<or> p = Leaked"

text \<open>The abstraction: the phase of instance \<open>k\<close> read off the concrete state.\<close>

definition phase_of :: "sub_state \<Rightarrow> nat \<Rightarrow> phase" where
  "phase_of s k =
     (if k \<in> set (pending s) then (if k \<in> set (cleaned s) then Orphaned else Listening)
      else if k \<notin> set (cleaned s) then Subscribed
      else (case unlisten_var s k of
              Some lid \<Rightarrow> (if lid \<in> set (listeners (sbus s)) then Leaked else Closed)
            | None \<Rightarrow> Closed))"

definition abs_sub :: "sub_state \<Rightarrow> phase list" where
  "abs_sub s = map (phase_of s) [0..<effects s]"

text \<open>The resolved instances: every instance whose \<open>listen\<close> is no longer in flight has
  its \<open>unlisten\<close>, and the handler of a resolved instance that is still mounted is
  registered.\<close>

definition sub_res_inv :: "sub_state \<Rightarrow> bool" where
  "sub_res_inv s \<longleftrightarrow>
     (\<forall>k < effects s. k \<notin> set (pending s) \<longrightarrow> unlisten_var s k \<noteq> None)
     \<and> (\<forall>k lid. unlisten_var s k = Some lid \<longrightarrow> k \<notin> set (cleaned s) \<longrightarrow> lid \<in> set (listeners (sbus s)))"

lemma sub_inv_init: "sub_inv init_sub"
  by (simp add: sub_inv_def init_sub_def init_bus_def)

lemma sub_inv_mount: "sub_inv s \<Longrightarrow> sub_inv (effect_mount s)"
  by (auto simp: sub_inv_def effect_mount_def)

lemma sub_inv_owner_other:
  assumes "sub_inv s" and "unlisten_var s k = None" and "lid \<in> set (listeners (sbus s))"
  shows "\<exists>j. j \<noteq> k \<and> unlisten_var s j = Some lid"
  using assms unfolding sub_inv_def by (metis option.distinct(1))

lemma sub_inv_fresh_inj:
  assumes "sub_inv s" and "\<forall>j. unlisten_var s j \<noteq> Some n"
  shows "\<forall>j i lid. ((unlisten_var s)(k := Some n)) j = Some lid \<longrightarrow>
                   ((unlisten_var s)(k := Some n)) i = Some lid \<longrightarrow> j = i"
  using assms unfolding sub_inv_def by (metis fun_upd_apply)

lemma sub_inv_remove_pending:
  assumes "sub_inv s"
  shows "\<forall>j \<in> set (remove1 k (pending s)). j < effects s \<and> ((unlisten_var s)(k := Some n)) j = None"
  using assms unfolding sub_inv_def by (auto simp: set_remove1_eq)

lemma sub_inv_resolve:
  assumes inv: "sub_inv s" and r: "listen_resolve s k = Some s'"
  shows "sub_inv s'"
proof -
  let ?n = "next_listener (sbus s)"
  from r have k: "k \<in> set (pending s)"
    and s': "s' = s\<lparr>sbus := (sbus s)\<lparr>listeners := listeners (sbus s) @ [?n], next_listener := Suc ?n\<rparr>,
                     unlisten_var := (unlisten_var s)(k := Some ?n), pending := remove1 k (pending s)\<rparr>"
    by (auto simp: listen_resolve_def bus_listen_def split: if_splits)
  from inv have i1: "distinct (listeners (sbus s))" and i2: "distinct (pending s)"
    and i3: "\<forall>lid \<in> set (listeners (sbus s)). lid < ?n"
    and i4: "\<forall>j \<in> set (pending s). j < effects s \<and> unlisten_var s j = None"
    and i5: "\<forall>j. j \<ge> effects s \<longrightarrow> unlisten_var s j = None \<and> j \<notin> set (cleaned s)"
    and i6: "\<forall>j lid. unlisten_var s j = Some lid \<longrightarrow> lid < ?n"
    unfolding sub_inv_def by blast+
  from i4 k have none: "unlisten_var s k = None" and lt: "k < effects s" by blast+
  from i6 have fresh1: "\<forall>j. unlisten_var s j \<noteq> Some ?n" by blast
  from i3 have fresh2: "?n \<notin> set (listeners (sbus s))" by blast
  have "distinct (listeners (sbus s'))" using i1 fresh2 by (simp add: s')
  moreover have "distinct (pending s')" using i2 by (simp add: s')
  moreover have "\<forall>lid \<in> set (listeners (sbus s')). lid < next_listener (sbus s')"
    using i3 by (simp add: s' less_Suc_eq)
  moreover have "\<forall>j \<in> set (pending s'). j < effects s' \<and> unlisten_var s' j = None"
    using sub_inv_remove_pending [OF inv] by (simp add: s')
  moreover have "\<forall>j. j \<ge> effects s' \<longrightarrow> unlisten_var s' j = None \<and> j \<notin> set (cleaned s')"
    using i5 lt by (simp add: s')
  moreover have "\<forall>j lid. unlisten_var s' j = Some lid \<longrightarrow> lid < next_listener (sbus s')"
    using i6 by (simp add: s' less_Suc_eq)
  moreover have "\<forall>j i lid. unlisten_var s' j = Some lid \<longrightarrow> unlisten_var s' i = Some lid \<longrightarrow> j = i"
  proof -
    have uv: "unlisten_var s' = (unlisten_var s)(k := Some ?n)" by (simp add: s')
    show ?thesis unfolding uv by (rule sub_inv_fresh_inj [OF inv fresh1])
  qed
  moreover have "\<forall>lid \<in> set (listeners (sbus s')). \<exists>j. unlisten_var s' j = Some lid"
    using sub_inv_owner_other [OF inv none] by (auto simp: s')
  ultimately show ?thesis by (simp add: sub_inv_def)
qed

lemma sub_inv_cleanup:
  assumes inv: "sub_inv s" and c: "effect_cleanup s k = Some s'"
  shows "sub_inv s'"
proof -
  from c have lt: "k < effects s"
    and s': "s' = (case unlisten_var s k of None \<Rightarrow> s
                  | Some lid \<Rightarrow> s\<lparr>sbus := bus_unlisten lid (sbus s)\<rparr>)\<lparr>cleaned := k # cleaned s\<rparr>"
    by (simp_all add: effect_cleanup_def split: if_splits)
  have same: "unlisten_var s' = unlisten_var s" "effects s' = effects s" "pending s' = pending s"
    "next_listener (sbus s') = next_listener (sbus s)" "cleaned s' = k # cleaned s"
    by (simp_all add: s' bus_unlisten_def split: option.splits)
  have sub: "set (listeners (sbus s')) \<subseteq> set (listeners (sbus s))"
    and dist: "distinct (listeners (sbus s))  \<Longrightarrow> distinct (listeners (sbus s'))"
    by (auto simp: s' bus_unlisten_def split: option.splits)
  from inv have i1: "distinct (listeners (sbus s))" and i2: "distinct (pending s)"
    and i3: "\<forall>lid \<in> set (listeners (sbus s)). lid < next_listener (sbus s)"
    and i4: "\<forall>j \<in> set (pending s). j < effects s \<and> unlisten_var s j = None"
    and i5: "\<forall>j. j \<ge> effects s \<longrightarrow> unlisten_var s j = None \<and> j \<notin> set (cleaned s)"
    and i6: "\<forall>j lid. unlisten_var s j = Some lid \<longrightarrow> lid < next_listener (sbus s)"
    and i7: "\<forall>j i lid. unlisten_var s j = Some lid \<longrightarrow> unlisten_var s i = Some lid \<longrightarrow> j = i"
    and i8: "\<forall>lid \<in> set (listeners (sbus s)). \<exists>j. unlisten_var s j = Some lid"
    unfolding sub_inv_def by blast+
  have "\<forall>j. j \<ge> effects s \<longrightarrow> unlisten_var s j = None \<and> j \<notin> set (k # cleaned s)"
    using i5 lt by auto
  moreover have "\<forall>lid \<in> set (listeners (sbus s')). lid < next_listener (sbus s)"
    using i3 sub by blast
  moreover have "\<forall>lid \<in> set (listeners (sbus s')). \<exists>j. unlisten_var s j = Some lid"
    using i8 sub by blast
  ultimately show ?thesis
    using dist [OF i1] i2 i4 i6 i7 unfolding sub_inv_def same by (intro conjI)
qed

lemma sub_inv_step: "sub_inv s \<Longrightarrow> sub_step s e = Some s' \<Longrightarrow> sub_inv s'"
  by (cases e) (auto intro: sub_inv_mount sub_inv_resolve sub_inv_cleanup)

subsection \<open>Teardown\<close>

lemma sub_step_cases:
  "sub_step s e = Some s' \<Longrightarrow>
     (s' = effect_mount s) \<or> (\<exists>k. listen_resolve s k = Some s') \<or> (\<exists>k. effect_cleanup s k = Some s')"
  by (cases e) auto

lemma listen_resolve_eq:
  "listen_resolve s k = Some s' \<Longrightarrow>
     k \<in> set (pending s) \<and> listeners (sbus s') = listeners (sbus s) @ [next_listener (sbus s)]
     \<and> next_listener (sbus s') = Suc (next_listener (sbus s))
     \<and> unlisten_var s' = (unlisten_var s)(k := Some (next_listener (sbus s)))
     \<and> cleaned s' = cleaned s"
  by (auto simp: listen_resolve_def bus_listen_def split: if_splits)

lemma effect_cleanup_eq:
  "effect_cleanup s k = Some s' \<Longrightarrow>
     k < effects s \<and> k \<notin> set (cleaned s) \<and> unlisten_var s' = unlisten_var s
     \<and> next_listener (sbus s') = next_listener (sbus s) \<and> cleaned s' = k # cleaned s
     \<and> listeners (sbus s') = (case unlisten_var s k of None \<Rightarrow> listeners (sbus s)
                             | Some lid \<Rightarrow> filter (\<lambda>j. j \<noteq> lid) (listeners (sbus s)))"
  by (auto simp: effect_cleanup_def bus_unlisten_def split: if_splits option.splits)

text \<open>A listener id that is off the bus and already allocated stays off it: \<open>listen\<close>
  only adds fresh ids.\<close>

lemma sub_step_keeps_absent:
  assumes "sub_step s e = Some s'" and "lid \<notin> set (listeners (sbus s))"
    and "lid < next_listener (sbus s)"
  shows "lid \<notin> set (listeners (sbus s')) \<and> lid < next_listener (sbus s')"
  using sub_step_cases [OF assms(1)] assms(2,3)
  by (auto simp: effect_mount_def dest!: listen_resolve_eq effect_cleanup_eq split: option.splits)

text \<open>The listener of a torn-down instance whose \<open>listen\<close> had resolved stays registered:
  no step removes it, since only its own instance's cleanup would, and that has run.\<close>

lemma sub_step_keeps_leaked:
  assumes "sub_step s e = Some s'" and "sub_inv s" and "unlisten_var s k = Some lid"
    and "k \<in> set (cleaned s)" and "lid \<in> set (listeners (sbus s))"
  shows "unlisten_var s' k = Some lid \<and> k \<in> set (cleaned s') \<and> lid \<in> set (listeners (sbus s'))"
proof -
  from assms(2) have inj: "\<forall>j i l. unlisten_var s j = Some l \<longrightarrow> unlisten_var s i = Some l \<longrightarrow> j = i"
    and pend: "\<forall>j \<in> set (pending s). unlisten_var s j = None"
    unfolding sub_inv_def by blast+
  consider "s' = effect_mount s" | j where "listen_resolve s j = Some s'"
    | j where "effect_cleanup s j = Some s'"
    using sub_step_cases [OF assms(1)] by blast
  then show ?thesis
  proof cases
    case 1
    with assms(3-5) show ?thesis by (simp add: effect_mount_def)
  next
    case (2 j)
    with pend assms(3) have "j \<noteq> k" by (auto dest: listen_resolve_eq)
    with 2 assms(3-5) show ?thesis by (auto dest!: listen_resolve_eq)
  next
    case (3 j)
    with assms(4) have "j \<noteq> k" by (auto dest: effect_cleanup_eq)
    with inj assms(3) have "unlisten_var s j \<noteq> Some lid" by blast
    with 3 assms(3-5) show ?thesis by (auto dest!: effect_cleanup_eq split: option.splits)
  qed
qed

lemma sub_run_inv: "sub_inv s \<Longrightarrow> run_opt sub_step s es = Some t \<Longrightarrow> sub_inv t"
  by (rule run_opt_invariant [where f = sub_step]) (auto intro: sub_inv_step)

text \<open>Cleanup after resolution: the instance's listener is removed and never registered
  again, whatever runs afterwards.\<close>

theorem cleanup_after_resolve_no_leak:
  assumes inv: "sub_inv s" and uv: "unlisten_var s k = Some lid"
    and c: "effect_cleanup s k = Some s'" and r: "run_opt sub_step s' es = Some t"
  shows "lid \<notin> set (listeners (sbus t))"
proof -
  from inv uv have "lid < next_listener (sbus s)" unfolding sub_inv_def by blast
  with c uv have start: "lid \<notin> set (listeners (sbus s')) \<and> lid < next_listener (sbus s')"
    by (auto dest!: effect_cleanup_eq)
  have "lid \<notin> set (listeners (sbus t)) \<and> lid < next_listener (sbus t)"
    by (rule run_opt_invariant [where f = sub_step and P = "\<lambda>u. lid \<notin> set (listeners (sbus u)) \<and> lid < next_listener (sbus u)", OF _ start r])
       (blast dest: sub_step_keeps_absent)
  then show ?thesis ..
qed

text \<open>Cleanup before resolution: \<open>unlisten\<close> is still undefined when the cleanup runs, so
  nothing is removed; when \<open>listen\<close> then resolves, the torn-down instance's handler is
  registered, and it stays registered in every later state.\<close>

theorem cleanup_before_resolve_leaks:
  assumes inv: "sub_inv s" and k: "k \<in> set (pending s)"
    and c: "effect_cleanup s k = Some s1" and r1: "listen_resolve s1 k = Some s2"
    and r: "run_opt sub_step s2 es = Some t"
  shows "k \<in> set (cleaned t) \<and> (\<exists>lid. unlisten_var t k = Some lid \<and> lid \<in> set (listeners (sbus t)))"
proof -
  let ?n = "next_listener (sbus s1)"
  have inv2: "sub_inv s2" using sub_inv_resolve [OF sub_inv_cleanup [OF inv c] r1] .
  from r1 c have s2: "unlisten_var s2 k = Some ?n" "k \<in> set (cleaned s2)" "?n \<in> set (listeners (sbus s2))"
    by (auto dest!: listen_resolve_eq effect_cleanup_eq)
  let ?P = "\<lambda>u. sub_inv u \<and> unlisten_var u k = Some ?n \<and> k \<in> set (cleaned u) \<and> ?n \<in> set (listeners (sbus u))"
  have "?P t"
    by (rule run_opt_invariant [where f = sub_step and P = ?P, OF _ _ r])
       (use inv2 s2 in \<open>auto intro: sub_inv_step dest: sub_step_keeps_leaked\<close>)
  then show ?thesis by blast
qed

text \<open>Each registered listener belongs to a distinct instance, so there are never more
  listeners than mounts.\<close>

lemma sub_inv_listeners_le:
  assumes inv: "sub_inv s"
  shows "length (listeners (sbus s)) \<le> effects s"
proof -
  from inv have d: "distinct (listeners (sbus s))"
    and own: "\<forall>lid \<in> set (listeners (sbus s)). \<exists>k. unlisten_var s k = Some lid"
    and hi: "\<forall>k. k \<ge> effects s \<longrightarrow> unlisten_var s k = None \<and> k \<notin> set (cleaned s)"
    unfolding sub_inv_def by blast+
  have sub: "set (listeners (sbus s)) \<subseteq> (\<lambda>k. the (unlisten_var s k)) ` {..<effects s}"
  proof
    fix lid assume "lid \<in> set (listeners (sbus s))"
    with own obtain k where k: "unlisten_var s k = Some lid" by blast
    with hi have "k < effects s" by (metis not_le option.distinct(1))
    with k show "lid \<in> (\<lambda>k. the (unlisten_var s k)) ` {..<effects s}" by force
  qed
  have "length (listeners (sbus s)) = card (set (listeners (sbus s)))"
    using d by (simp add: distinct_card)
  also have "\<dots> \<le> card ((\<lambda>k. the (unlisten_var s k)) ` {..<effects s})"
    using sub by (intro card_mono) auto
  also have "\<dots> \<le> card {..<effects s}" by (rule card_image_le) simp
  finally show ?thesis by simp
qed

subsection \<open>Refinement of the abstract specification\<close>

lemma sub_res_inv_init: "sub_res_inv init_sub"
  by (simp add: sub_res_inv_def init_sub_def)

lemma sub_res_inv_step:
  assumes inv: "sub_inv s" and res: "sub_res_inv s" and st: "sub_step s e = Some s'"
  shows "sub_res_inv s'"
proof (cases e)
  case Mount
  with st res show ?thesis by (auto simp: sub_res_inv_def effect_mount_def)
next
  case (Resolve k)
  with st res show ?thesis
    by (auto simp: sub_res_inv_def listen_resolve_def bus_listen_def split: if_splits)
next
  case (Cleanup k)
  from inv have inj: "\<forall>j i l. unlisten_var s j = Some l \<longrightarrow> unlisten_var s i = Some l \<longrightarrow> j = i"
    unfolding sub_inv_def by blast
  have "unlisten_var s k = Some l \<Longrightarrow> unlisten_var s j = Some l' \<Longrightarrow> j \<noteq> k \<Longrightarrow> l' \<noteq> l" for j l l'
    using inj by blast
  with Cleanup st res show ?thesis
    by (auto simp: sub_res_inv_def effect_cleanup_def bus_unlisten_def split: if_splits option.splits)
qed

lemma abs_sub_mount:
  assumes inv: "sub_inv s"
  shows "abs_sub (effect_mount s) = abs_sub s @ [Listening]"
proof -
  from inv have pend: "\<forall>j \<in> set (pending s). j < effects s"
    and hi: "effects s \<notin> set (cleaned s)"
    unfolding sub_inv_def by auto
  have "phase_of (effect_mount s) j = phase_of s j" if "j < effects s" for j
    using that by (simp add: phase_of_def effect_mount_def split: option.splits)
  moreover have "phase_of (effect_mount s) (effects s) = Listening"
    using hi by (simp add: phase_of_def effect_mount_def)
  ultimately show ?thesis
    by (simp add: abs_sub_def effect_mount_def)
qed

lemma abs_sub_resolve:
  assumes inv: "sub_inv s" and r: "listen_resolve s k = Some s'"
  shows "abs_sub s' = (abs_sub s)[k := (if k \<in> set (cleaned s) then Leaked else Subscribed)]"
proof -
  let ?n = "next_listener (sbus s)"
  from r have k: "k \<in> set (pending s)"
    and s': "s' = s\<lparr>sbus := (sbus s)\<lparr>listeners := listeners (sbus s) @ [?n], next_listener := Suc ?n\<rparr>,
                     unlisten_var := (unlisten_var s)(k := Some ?n), pending := remove1 k (pending s)\<rparr>"
    by (auto simp: listen_resolve_def bus_listen_def split: if_splits)
  from inv have dist: "distinct (pending s)"
    and lt: "\<forall>j \<in> set (pending s). j < effects s"
    and fresh: "\<forall>j lid. unlisten_var s j = Some lid \<longrightarrow> lid < ?n"
    unfolding sub_inv_def by blast+
  have other: "phase_of s' j = phase_of s j" if "j \<noteq> k" for j
  proof -
    have "unlisten_var s j = Some lid \<Longrightarrow> lid \<noteq> ?n" for lid using fresh by blast
    with that show ?thesis
      by (auto simp: phase_of_def s' split: option.splits)
  qed
  have self: "phase_of s' k = (if k \<in> set (cleaned s) then Leaked else Subscribed)"
    using dist by (simp add: phase_of_def s')
  have eff: "effects s' = effects s" by (simp add: s')
  from k lt have "k < effects s" by blast
  then show ?thesis
    unfolding abs_sub_def eff map_upt_update [OF \<open>k < effects s\<close>]
    by (intro map_cong refl) (simp add: other self)
qed

lemma abs_sub_cleanup:
  assumes inv: "sub_inv s" and res: "sub_res_inv s" and c: "effect_cleanup s k = Some s'"
  shows "abs_sub s' = (abs_sub s)[k := (if k \<in> set (pending s) then Orphaned else Closed)]"
proof -
  from c have lt: "k < effects s" and nc: "k \<notin> set (cleaned s)"
    and s': "s' = (case unlisten_var s k of None \<Rightarrow> s
                  | Some lid \<Rightarrow> s\<lparr>sbus := bus_unlisten lid (sbus s)\<rparr>)\<lparr>cleaned := k # cleaned s\<rparr>"
    by (simp_all add: effect_cleanup_def split: if_splits)
  from inv have inj: "\<forall>j i l. unlisten_var s j = Some l \<longrightarrow> unlisten_var s i = Some l \<longrightarrow> j = i"
    unfolding sub_inv_def by blast
  have other: "phase_of s' j = phase_of s j" if "j \<noteq> k" for j
  proof -
    have "unlisten_var s k = Some l \<Longrightarrow> unlisten_var s j = Some l' \<Longrightarrow> l' \<noteq> l" for l l'
      using inj that by blast
    with that show ?thesis
      by (auto simp: phase_of_def s' bus_unlisten_def split: option.splits)
  qed
  have self: "phase_of s' k = (if k \<in> set (pending s) then Orphaned else Closed)"
  proof (cases "k \<in> set (pending s)")
    case True
    then show ?thesis by (simp add: phase_of_def s' split: option.splits)
  next
    case False
    with res lt obtain lid where "unlisten_var s k = Some lid"
      unfolding sub_res_inv_def by blast
    with False show ?thesis by (simp add: phase_of_def s' bus_unlisten_def)
  qed
  have eff: "effects s' = effects s" by (simp add: s' split: option.splits)
  show ?thesis
    unfolding abs_sub_def eff map_upt_update [OF lt]
    by (intro map_cong refl) (simp add: other self)
qed

lemma abs_sub_length [simp]: "length (abs_sub s) = effects s"
  by (simp add: abs_sub_def)

lemma abs_sub_nth [simp]: "k < effects s \<Longrightarrow> abs_sub s ! k = phase_of s k"
  by (simp add: abs_sub_def)

text \<open>Each step of the effect is the step of the specification on the abstraction, with
  the same enabledness.\<close>

lemma sub_step_refines:
  assumes inv: "sub_inv s" and res: "sub_res_inv s"
  shows "map_option abs_sub (sub_step s e) = phase_step (abs_sub s) e"
proof (cases e)
  case Mount
  then show ?thesis by (simp add: abs_sub_mount [OF inv])
next
  case (Resolve k)
  from inv have lt: "\<forall>j \<in> set (pending s). j < effects s" unfolding sub_inv_def by blast
  show ?thesis
  proof (cases "k \<in> set (pending s)")
    case True
    then obtain s' where r: "listen_resolve s k = Some s'"
      by (simp add: listen_resolve_def bus_listen_def)
    from True lt have "k < effects s" by blast
    with True r Resolve show ?thesis
      by (simp add: abs_sub_resolve [OF inv r] phase_of_def)
  next
    case False
    then have "listen_resolve s k = None" by (simp add: listen_resolve_def)
    with False Resolve show ?thesis
      by (simp add: phase_of_def split: option.splits)
  qed
next
  case (Cleanup k)
  show ?thesis
  proof (cases "k < effects s \<and> k \<notin> set (cleaned s)")
    case True
    then obtain s' where c: "effect_cleanup s k = Some s'"
      by (simp add: effect_cleanup_def)
    with True Cleanup show ?thesis
      by (simp add: abs_sub_cleanup [OF inv res c] phase_of_def)
  next
    case False
    then have "effect_cleanup s k = None" by (auto simp: effect_cleanup_def)
    with False Cleanup show ?thesis
      by (auto simp: phase_of_def split: option.splits)
  qed
qed

lemma sub_step_inv2:
  "sub_inv s \<and> sub_res_inv s \<Longrightarrow> sub_step s e = Some s' \<Longrightarrow> sub_inv s' \<and> sub_res_inv s'"
  by (blast intro: sub_inv_step sub_res_inv_step)

lemma sub_run_inv2:
  "run_opt sub_step init_sub es = Some t \<Longrightarrow> sub_inv t \<and> sub_res_inv t"
  by (rule run_opt_invariant [where f = sub_step, OF sub_step_inv2])
     (simp_all add: sub_inv_init sub_res_inv_init)

lemma sub_step_abs:
  assumes "sub_inv u" and "sub_res_inv u" and "phase_step (abs_sub u) e = Some A"
  shows "\<exists>u'. sub_step u e = Some u' \<and> abs_sub u' = A \<and> sub_inv u' \<and> sub_res_inv u'"
proof -
  from sub_step_refines [OF assms(1,2), of e] assms(3) obtain u' where
    st: "sub_step u e = Some u'" and "abs_sub u' = A" by (cases "sub_step u e") auto
  with sub_step_inv2 [OF _ st] assms(1,2) show ?thesis by blast
qed

lemma abs_sub_init [simp]: "abs_sub init_sub = []"
  by (simp add: abs_sub_def init_sub_def)

text \<open>C5. Refinement of the specification by the effect: on every sequence of mounts,
  resolutions and cleanups, the effect is enabled exactly when the specification is, and
  its state has the phases the specification computes.\<close>

theorem subscription_refines_spec:
  "map_option abs_sub (run_opt sub_step init_sub es) = run_opt phase_step [] es"
proof -
  have "map_option abs_sub (run_opt sub_step init_sub es) = run_opt phase_step (abs_sub init_sub) es"
    by (rule run_opt_simulation [where P = "\<lambda>s. sub_inv s \<and> sub_res_inv s"])
       (auto intro: sub_step_refines sub_inv_step sub_res_inv_step sub_inv_init sub_res_inv_init)
  then show ?thesis by simp
qed

text \<open>The registered handlers are exactly those of the instances in a registered phase.\<close>

lemma registered_phase_iff:
  assumes inv: "sub_inv s" and res: "sub_res_inv s" and k: "k < effects s"
  shows "registered (phase_of s k) \<longleftrightarrow> (\<exists>lid. unlisten_var s k = Some lid \<and> lid \<in> set (listeners (sbus s)))"
proof -
  from inv have pend: "\<forall>j \<in> set (pending s). unlisten_var s j = None" unfolding sub_inv_def by blast
  from res k have r1: "unlisten_var s k = None \<Longrightarrow> k \<in> set (pending s)"
    and r2: "\<forall>lid. unlisten_var s k = Some lid \<longrightarrow> k \<notin> set (cleaned s) \<longrightarrow> lid \<in> set (listeners (sbus s))"
    unfolding sub_res_inv_def by blast+
  show ?thesis
    using pend r1 r2 by (auto simp: registered_def phase_of_def split: option.splits)
qed

lemma listeners_registered:
  assumes inv: "sub_inv s" and res: "sub_res_inv s"
  shows "length (listeners (sbus s)) = length (filter registered (abs_sub s))"
proof -
  let ?K = "{k. k < effects s \<and> registered (phase_of s k)}"
  let ?h = "\<lambda>k. the (unlisten_var s k)"
  from inv have d: "distinct (listeners (sbus s))"
    and own: "\<forall>lid \<in> set (listeners (sbus s)). \<exists>k. unlisten_var s k = Some lid"
    and hi: "\<forall>k. k \<ge> effects s \<longrightarrow> unlisten_var s k = None \<and> k \<notin> set (cleaned s)"
    and inj: "\<forall>j i l. unlisten_var s j = Some l \<longrightarrow> unlisten_var s i = Some l \<longrightarrow> j = i"
    unfolding sub_inv_def by blast+
  note iff = registered_phase_iff [OF inv res]
  have img: "set (listeners (sbus s)) = ?h ` ?K"
  proof
    show "set (listeners (sbus s)) \<subseteq> ?h ` ?K"
    proof
      fix lid assume l: "lid \<in> set (listeners (sbus s))"
      with own obtain k where k: "unlisten_var s k = Some lid" by blast
      with hi have "k < effects s" by (metis not_le option.distinct(1))
      with k l iff show "lid \<in> ?h ` ?K" by (auto intro!: image_eqI [of _ _ k])
    qed
    show "?h ` ?K \<subseteq> set (listeners (sbus s))" using iff by auto
  qed
  have "inj_on ?h ?K"
  proof (rule inj_onI)
    fix j i assume "j \<in> ?K" "i \<in> ?K" and eq: "?h j = ?h i"
    with iff obtain lj li where "unlisten_var s j = Some lj" "unlisten_var s i = Some li" by blast
    with eq inj show "j = i" by auto
  qed
  then have "card (set (listeners (sbus s))) = card ?K" by (simp add: img card_image)
  moreover have "{i. i < length (abs_sub s) \<and> registered (abs_sub s ! i)} = ?K" by auto
  then have "length (filter registered (abs_sub s)) = card ?K"
    by (simp only: length_filter_conv_card)
  ultimately show ?thesis using d by (simp add: distinct_card)
qed

end
