(* ===== verification/Projects.thy ===== *)
theory Projects
  imports Prelude
begin

text \<open>
  The project list: the \<open>Project\<close> interface (src/src/App.tsx lines 164--171, repeated in
  src/src/components/macro/project-card.tsx lines 7--14), what \<open>ProjectCard\<close> shows for
  one project, and what \<open>PreviewOperations\<close> shows for its \<open>projects\<close> cell
  (\<open>undefined\<close> until the first fetch resolves). The relative date
  (\<open>formatDistanceToNow\<close> of date-fns) and the dropdown menu, whose items have no handlers,
  are not modelled.
\<close>

datatype status = Completed | Processing | Failed

text \<open>The wire text of a status, the union \<open>"completed" | "processing" | "failed"\<close>.\<close>

fun status_str :: "status \<Rightarrow> js_string" where
  "status_str Completed = ''completed''"
| "status_str Processing = ''processing''"
| "status_str Failed = ''failed''"

record project =
  project_id :: js_string
  fileName :: js_string
  thumbnail :: js_string
  pquantity :: int
  date :: js_string
  pstatus :: status

subsection \<open>ProjectCard\<close>

record card_view =
  img_src :: js_string
  img_alt :: js_string
  heading :: js_string
  count_text :: js_string
  status_class :: js_string
  status_label :: js_string

text \<open>Lines 61--69: the colour class, by comparing the status text.\<close>

definition status_color :: "status \<Rightarrow> js_string" where
  "status_color st =
     (if status_str st = ''completed'' then ''text-green-500''
      else if status_str st = ''processing'' then ''text-blue-500''
      else ''text-destructive'')"

text \<open>\<open>ProjectCard\<close>, project-card.tsx lines 16--76.\<close>

definition project_card :: "project \<Rightarrow> card_view" where
  "project_card p =
     \<lparr>img_src = js_str_or (thumbnail p) ''/placeholder.svg'',
      img_alt = fileName p,
      heading = fileName p,
      count_text = js_num_str (pquantity p) @ '' video'' @ (if pquantity p > 1 then ''s'' else [])
                   @ '' generated'',
      status_class = status_color (pstatus p),
      status_label = js_capitalize (status_str (pstatus p))\<rparr>"

subsection \<open>PreviewOperations\<close>

datatype preview = Placeholder | Cards "card_view list"

text \<open>Lines 189--195: \<open>projects ? projects.map(...) : placeholder\<close>. An array is truthy in
  JavaScript even when empty, so only \<open>undefined\<close> shows the placeholder.\<close>

definition preview_view :: "project list option \<Rightarrow> preview" where
  "preview_view ps = (case ps of None \<Rightarrow> Placeholder | Some xs \<Rightarrow> Cards (map project_card xs))"

subsection \<open>Lemmas\<close>

lemma status_color_simps [simp]:
  "status_color Completed = ''text-green-500''"
  "status_color Processing = ''text-blue-500''"
  "status_color Failed = ''text-destructive''"
  by (simp_all add: status_color_def)

lemma preview_view_simps [simp]:
  "preview_view None = Placeholder" "preview_view (Some xs) = Cards (map project_card xs)"
  by (simp_all add: preview_view_def)

lemma status_initials_upper [simp]:
  "js_upper CHR ''c'' = CHR ''C''" "js_upper CHR ''p'' = CHR ''P''" "js_upper CHR ''f'' = CHR ''F''"
  by code_simp+

subsection \<open>Properties\<close>

text \<open>C17. Scenario D of the spec: three projects with statuses processing, completed and
  failed are shown as exactly three cards, in the backend's order, labelled
  \<open>Processing\<close>, \<open>Completed\<close>, \<open>Failed\<close> with the blue, green and destructive colour
  classes.\<close>

theorem three_projects_view:
  assumes "pstatus p1 = Processing" and "pstatus p2 = Completed" and "pstatus p3 = Failed"
  shows "\<exists>c1 c2 c3. preview_view (Some [p1, p2, p3]) = Cards [c1, c2, c3]
           \<and> map heading [c1, c2, c3] = [fileName p1, fileName p2, fileName p3]
           \<and> map status_label [c1, c2, c3] = [''Processing'', ''Completed'', ''Failed'']
           \<and> map status_class [c1, c2, c3] = [''text-blue-500'', ''text-green-500'', ''text-destructive'']"
  using assms by (simp add: project_card_def)

theorem three_projects_view_witness:
  "preview_view (Some [\<lparr>project_id = ''a'', fileName = ''a.mp4'', thumbnail = [], pquantity = 3,
       date = ''2025-01-01'', pstatus = Processing\<rparr>,
     \<lparr>project_id = ''b'', fileName = ''b.mkv'', thumbnail = ''b.png'', pquantity = 1,
       date = ''2025-01-02'', pstatus = Completed\<rparr>,
     \<lparr>project_id = ''c'', fileName = ''c.mp4'', thumbnail = [], pquantity = 12,
       date = ''2025-01-03'', pstatus = Failed\<rparr>]) \<noteq> Placeholder"
proof -
  from three_projects_view [of "\<lparr>project_id = ''a'', fileName = ''a.mp4'', thumbnail = [], pquantity = 3,
       date = ''2025-01-01'', pstatus = Processing\<rparr>"
     "\<lparr>project_id = ''b'', fileName = ''b.mkv'', thumbnail = ''b.png'', pquantity = 1,
       date = ''2025-01-02'', pstatus = Completed\<rparr>"
     "\<lparr>project_id = ''c'', fileName = ''c.mp4'', thumbnail = [], pquantity = 12,
       date = ''2025-01-03'', pstatus = Failed\<rparr>"]
  show ?thesis by auto
qed

end
