(* ===== verification/Gateway.thy ===== *)
theory Gateway
  imports Request Projects
begin

text \<open>
  The command gateway: the two \<open>invoke\<close> calls of src/src/App.tsx,
  \<open>invoke("generate_cuts", { reqData })\<close> in \<open>submitGeneration\<close> (line 101) and
  \<open>invoke<Project[]>("projects")\<close> in the effect of \<open>PreviewOperations\<close> (line 179).
  Tauri's \<open>invoke\<close> is outside this repository and is modelled from its contract: each
  call gets a fresh id and stays in flight until the backend answers it, in any order,
  with a value (fulfilled promise) or an error (rejected promise). A projects call
  records which mount of \<open>PreviewOperations\<close> issued it, because its continuation
  writes that instance's state.
\<close>

datatype command = GenerateCuts gen_shape | ListProjects nat

datatype reply = ReplyAck | ReplyProjects "project list" | ReplyError js_string

text \<open>The backend's answer types: \<open>generate_cuts\<close> acknowledges, \<open>projects\<close> returns the
  list; either may fail.\<close>

fun reply_fits :: "command \<Rightarrow> reply \<Rightarrow> bool" where
  "reply_fits (GenerateCuts _) ReplyAck = True"
| "reply_fits (ListProjects _) (ReplyProjects _) = True"
| "reply_fits _ (ReplyError _) = True"
| "reply_fits _ _ = False"

record ipc =
  next_call :: nat
  inflight :: "(nat \<times> command) list"

definition init_ipc :: ipc where
  "init_ipc = \<lparr>next_call = 0, inflight = []\<rparr>"

definition invoke :: "ipc \<Rightarrow> command \<Rightarrow> ipc" where
  "invoke c cmd = \<lparr>next_call = Suc (next_call c), inflight = inflight c @ [(next_call c, cmd)]\<rparr>"

text \<open>The backend answers call \<open>n\<close>: the call leaves the in-flight list and its command
  is handed to the continuation; \<open>None\<close> when no such call is in flight.\<close>

definition settle :: "ipc \<Rightarrow> nat \<Rightarrow> (command \<times> ipc) option" where
  "settle c n =
     (case map_of (inflight c) n of
        None \<Rightarrow> None
      | Some cmd \<Rightarrow> Some (cmd, c\<lparr>inflight := filter (\<lambda>(m, _). m \<noteq> n) (inflight c)\<rparr>))"

definition calls_of :: "ipc \<Rightarrow> command list" where
  "calls_of c = map snd (inflight c)"

lemma invoke_calls [simp]: "calls_of (invoke c cmd) = calls_of c @ [cmd]"
  by (simp add: invoke_def calls_of_def)

lemma settle_Some:
  "settle c n = Some (cmd, c') \<Longrightarrow>
     (n, cmd) \<in> set (inflight c) \<and> set (calls_of c') \<subseteq> set (calls_of c) \<and> next_call c' = next_call c"
  by (auto simp: settle_def calls_of_def split: option.splits dest: map_of_SomeD)

text \<open>Call ids in flight are distinct and already allocated.\<close>

definition ipc_ok :: "ipc \<Rightarrow> bool" where
  "ipc_ok c \<longleftrightarrow> distinct (map fst (inflight c)) \<and> (\<forall>m \<in> fst ` set (inflight c). m < next_call c)"

lemma ipc_ok_init: "ipc_ok init_ipc"
  by (simp add: ipc_ok_def init_ipc_def)

lemma ipc_ok_invoke: "ipc_ok c \<Longrightarrow> ipc_ok (invoke c cmd)"
  by (auto simp: ipc_ok_def invoke_def)

lemma ipc_ok_settle: "ipc_ok c \<Longrightarrow> settle c n = Some (cmd, c') \<Longrightarrow> ipc_ok c'"
  by (fastforce simp: ipc_ok_def settle_def distinct_map_filter split: option.splits)

text \<open>In a well-formed gateway, answering a call hands its own command to the
  continuation and removes exactly that call.\<close>

lemma settle_inflight:
  assumes "ipc_ok c" and "(n, cmd) \<in> set (inflight c)"
  shows "settle c n = Some (cmd, c\<lparr>inflight := filter (\<lambda>(m, _). m \<noteq> n) (inflight c)\<rparr>)"
proof -
  from assms have "map_of (inflight c) n = Some cmd"
    by (simp add: ipc_ok_def)
  then show ?thesis by (simp add: settle_def)
qed

end
