(* ===== verification/App.thy ===== *)
theory App
  imports Controls Notify Events Gateway
begin

text \<open>
  The whole front end as one state machine: \<open>App\<close> and its children
  \<open>OperationInitializer\<close> (with \<open>VideoControls\<close>) and \<open>PreviewOperations\<close>
  (src/src/App.tsx), the sonner toaster, the Tauri event bus and the Tauri IPC.
  One \<open>app_event\<close> is one thing the outside world does: React mounts or unmounts the tree,
  a promise settles, the user interacts, the backend emits an \<open>"error"\<close> event, or time
  passes. \<open>app_step\<close> is \<open>None\<close> for an event that cannot happen in the state.
  \<open>gen\<close> counts mounts of the tree: a mount gives every component fresh \<open>useState\<close>
  cells, and a continuation that writes the cells of an earlier mount is discarded, as
  React discards a state update of an unmounted component.
\<close>

record app =
  ui :: ui_state
  sub :: sub_state
  toaster :: toaster
  ipc :: ipc
  projects :: "project list option"
  unhandled :: "js_string list"
  mounted :: bool
  gen :: nat
  now :: time

definition init_app :: app where
  "init_app = \<lparr>ui = init_ui, sub = init_sub, toaster = init_toaster, ipc = init_ipc,
     projects = None, unhandled = [], mounted = False, gen = 0, now = 0\<rparr>"

datatype app_event =
    AppMount
  | AppUnmount
  | ListenResolves nat
  | UI ui_event
  | ClickGenerate
  | Reply nat reply
  | BackendEmit js_string
  | ClickToastAction nat
  | Tick nat

subsection \<open>Handlers\<close>

text \<open>Mounting: fresh state cells; the effect of \<open>PreviewOperations\<close> (lines 177--182)
  calls \<open>projects\<close>, and the effect of \<open>App\<close> (lines 28--50) calls \<open>listen\<close>.\<close>

definition app_mount :: "app \<Rightarrow> app" where
  "app_mount s =
     s\<lparr>ui := init_ui, projects := None, mounted := True, gen := Suc (gen s),
       ipc := invoke (ipc s) (ListProjects (Suc (gen s))), sub := effect_mount (sub s)\<rparr>"

text \<open>Unmounting runs the cleanup of the current instance of \<open>App\<close>'s effect.\<close>

definition app_unmount :: "app \<Rightarrow> app option" where
  "app_unmount s =
     map_option (\<lambda>u. s\<lparr>sub := u, mounted := False\<rparr>) (effect_cleanup (sub s) (effects (sub s) - 1))"

text \<open>\<open>submitGeneration\<close>, lines 98--101: the request is built from the form and sent.\<close>

definition submit_generation :: "app \<Rightarrow> app" where
  "submit_generation s = s\<lparr>ipc := invoke (ipc s) (GenerateCuts (build_req (ui s)))\<rparr>"

text \<open>The continuations of \<open>submitGeneration\<close> (lines 101--123): on success the toast
  of lines 103--109, on failure the toast of lines 113--121 with the error's text.\<close>

fun on_generate_reply :: "app \<Rightarrow> reply \<Rightarrow> app" where
  "on_generate_reply s ReplyAck = s\<lparr>toaster := dispatch (toaster s) (success_toast (now s))\<rparr>"
| "on_generate_reply s (ReplyError e) = s\<lparr>toaster := dispatch (toaster s) (failure_toast e (now s))\<rparr>"
| "on_generate_reply s (ReplyProjects _) = s"

text \<open>The rest of the async function of \<open>PreviewOperations\<close>' effect (lines 178--181) for
  the call issued by mount \<open>g\<close>: \<open>setProjects\<close> (line 180), which React drops when that
  mount is gone; a rejection escapes the function as an unhandled rejection and changes
  no state.\<close>

fun on_projects_reply :: "app \<Rightarrow> nat \<Rightarrow> reply \<Rightarrow> app" where
  "on_projects_reply s g (ReplyProjects ps) = (if mounted s \<and> g = gen s then s\<lparr>projects := Some ps\<rparr> else s)"
| "on_projects_reply s g (ReplyError e) = s\<lparr>unhandled := unhandled s @ [e]\<rparr>"
| "on_projects_reply s g ReplyAck = s"

text \<open>A settled call resumes the continuation of the command that issued it.\<close>

primrec on_reply :: "app \<Rightarrow> command \<Rightarrow> reply \<Rightarrow> app" where
  "on_reply s (GenerateCuts _) r = on_generate_reply s r"
| "on_reply s (ListProjects g) r = on_projects_reply s g r"

definition app_reply :: "app \<Rightarrow> nat \<Rightarrow> reply \<Rightarrow> app option" where
  "app_reply s n r =
     (case settle (ipc s) n of
        None \<Rightarrow> None
      | Some (cmd, c') \<Rightarrow> (if reply_fits cmd r then Some (on_reply (s\<lparr>ipc := c'\<rparr>) cmd r) else None))"

text \<open>An emission of \<open>"error"\<close>: every registered handler runs the toast of lines 36--43.\<close>

definition backend_emit :: "app \<Rightarrow> js_string \<Rightarrow> app" where
  "backend_emit s payload =
     s\<lparr>toaster := dispatch_all (toaster s)
                    (map (\<lambda>(lid, p). event_toast lid p (now s)) (bus_emit (sbus (sub s)) payload))\<rparr>"

fun app_step :: "app \<Rightarrow> app_event \<Rightarrow> app option" where
  "app_step s AppMount = (if mounted s then None else Some (app_mount s))"
| "app_step s AppUnmount = (if mounted s then app_unmount s else None)"
| "app_step s (ListenResolves k) = map_option (\<lambda>u. s\<lparr>sub := u\<rparr>) (listen_resolve (sub s) k)"
| "app_step s (UI e) =
     (if mounted s then map_option (\<lambda>u. s\<lparr>ui := u\<rparr>) (ui_step (ui s) e) else None)"
| "app_step s ClickGenerate = (if mounted s then Some (submit_generation s) else None)"
| "app_step s (Reply n r) = app_reply s n r"
| "app_step s (BackendEmit p) = Some (backend_emit s p)"
| "app_step s (ClickToastAction i) =
     (if mounted s \<and> i \<in> fst ` set (toasts (toaster s))
      then Some (s\<lparr>toaster := click_action (toaster s) i\<rparr>) else None)"
| "app_step s (Tick d) = Some (s\<lparr>now := now s + d\<rparr>)"

definition app_run :: "app_event list \<Rightarrow> app option" where
  "app_run es = run_opt app_step init_app es"

subsection \<open>The application invariant\<close>

text \<open>The form is within the slider and select ranges, the subscription state and the
  gateway are well formed, and every \<open>generate_cuts\<close> call in flight carries a request
  that meets the spec's contract.\<close>

definition app_inv :: "app \<Rightarrow> bool" where
  "app_inv s \<longleftrightarrow> form_inv (ui s) \<and> sub_inv (sub s) \<and> ipc_ok (ipc s)
     \<and> (\<forall>r. GenerateCuts r \<in> set (calls_of (ipc s)) \<longrightarrow> request_ok r)"

lemma on_reply_frame [simp]:
  "ui (on_reply s c r) = ui s" "ipc (on_reply s c r) = ipc s" "sub (on_reply s c r) = sub s"
  "now (on_reply s c r) = now s" "mounted (on_reply s c r) = mounted s" "gen (on_reply s c r) = gen s"
  by (cases c; cases r; simp)+

lemma app_reply_Some:
  "app_reply s n r = Some s' \<Longrightarrow>
     \<exists>cmd c'. settle (ipc s) n = Some (cmd, c') \<and> reply_fits cmd r \<and> s' = on_reply (s\<lparr>ipc := c'\<rparr>) cmd r"
  by (auto simp: app_reply_def split: option.splits if_splits)

lemma backend_emit_frame [simp]:
  "ui (backend_emit s p) = ui s" "ipc (backend_emit s p) = ipc s" "sub (backend_emit s p) = sub s"
  "projects (backend_emit s p) = projects s" "mounted (backend_emit s p) = mounted s"
  by (simp_all add: backend_emit_def)

lemma app_inv_init: "app_inv init_app"
  using form_inv_init sub_inv_init ipc_ok_init by (simp add: app_inv_def init_app_def calls_of_def init_ipc_def)

lemma app_inv_reply:
  assumes inv: "app_inv s" and r: "app_reply s n r = Some s'"
  shows "app_inv s'"
proof -
  from app_reply_Some [OF r] obtain cmd c' where st: "settle (ipc s) n = Some (cmd, c')"
    and s': "s' = on_reply (s\<lparr>ipc := c'\<rparr>) cmd r" by blast
  from settle_Some [OF st] have "set (calls_of c') \<subseteq> set (calls_of (ipc s))" by blast
  with inv ipc_ok_settle [OF _ st] show ?thesis
    by (auto simp: app_inv_def s')
qed

lemma app_inv_step: "app_inv s \<Longrightarrow> app_step s e = Some s' \<Longrightarrow> app_inv s'"
proof (cases e)
  case AppMount
  assume "app_inv s" "app_step s e = Some s'"
  with AppMount show ?thesis
    by (auto simp: app_inv_def app_mount_def form_inv_init sub_inv_mount ipc_ok_invoke split: if_splits)
next
  case AppUnmount
  assume "app_inv s" "app_step s e = Some s'"
  with AppUnmount show ?thesis
    by (auto simp: app_inv_def app_unmount_def split: if_splits intro: sub_inv_cleanup)
next
  case (ListenResolves k)
  assume "app_inv s" "app_step s e = Some s'"
  with ListenResolves show ?thesis
    by (auto simp: app_inv_def intro: sub_inv_resolve)
next
  case (UI u)
  assume "app_inv s" "app_step s e = Some s'"
  with UI show ?thesis
    by (auto simp: app_inv_def split: if_splits intro: ui_step_form_inv)
next
  case ClickGenerate
  assume "app_inv s" "app_step s e = Some s'"
  with ClickGenerate show ?thesis
    by (auto simp: app_inv_def submit_generation_def ipc_ok_invoke form_inv_request_ok split: if_splits)
next
  case (Reply n r)
  assume "app_inv s" "app_step s e = Some s'"
  with Reply show ?thesis by (auto intro: app_inv_reply)
qed (auto simp: app_inv_def split: if_splits)

lemma app_run_inv: "app_run es = Some s \<Longrightarrow> app_inv s"
  unfolding app_run_def
  by (rule run_opt_invariant [where f = app_step and P = app_inv]) (auto intro: app_inv_step app_inv_init)

subsection \<open>The subscription inside a run\<close>

lemma app_step_sub:
  "app_step s e = Some s' \<Longrightarrow> sub s' = sub s \<or> (\<exists>e'. sub_step (sub s) e' = Some (sub s'))"
proof (cases e)
  case AppMount
  assume "app_step s e = Some s'"
  with AppMount have "sub_step (sub s) Mount = Some (sub s')"
    by (auto simp: app_mount_def split: if_splits)
  then show ?thesis by blast
next
  case AppUnmount
  assume "app_step s e = Some s'"
  with AppUnmount have "sub_step (sub s) (Cleanup (effects (sub s) - 1)) = Some (sub s')"
    by (auto simp: app_unmount_def split: if_splits)
  then show ?thesis by blast
next
  case (ListenResolves k)
  assume "app_step s e = Some s'"
  with ListenResolves have "sub_step (sub s) (Resolve k) = Some (sub s')" by auto
  then show ?thesis by blast
next
  case (Reply n r)
  assume "app_step s e = Some s'"
  with Reply show ?thesis by (auto dest!: app_reply_Some)
qed (auto simp: submit_generation_def split: if_splits)

lemma app_run_sub:
  "run_opt app_step s fs = Some t \<Longrightarrow> \<exists>es. run_opt sub_step (sub s) es = Some (sub t)"
proof (induction fs arbitrary: s)
  case Nil
  then show ?case by (auto intro: exI [of _ "[]"])
next
  case (Cons f fs)
  then obtain s' where st: "app_step s f = Some s'" and r: "run_opt app_step s' fs = Some t"
    by (auto split: option.splits)
  from Cons.IH [OF r] obtain es where es: "run_opt sub_step (sub s') es = Some (sub t)" by blast
  from app_step_sub [OF st] show ?case
  proof
    assume "sub s' = sub s"
    with es show ?thesis by auto
  next
    assume "\<exists>e'. sub_step (sub s) e' = Some (sub s')"
    then obtain e' where "sub_step (sub s) e' = Some (sub s')" by blast
    with es have "run_opt sub_step (sub s) (e' # es) = Some (sub t)" by simp
    then show ?thesis by blast
  qed
qed

lemma backend_emit_toasts:
  "map snd (toasts (toaster (backend_emit s p))) =
     map snd (toasts (toaster s)) @ map (\<lambda>lid. event_toast lid p (now s)) (listeners (sbus (sub s)))"
  by (simp add: backend_emit_def bus_emit_def comp_def)

lemma app_reply_inflight:
  assumes "app_inv s" and "(n, cmd) \<in> set (inflight (ipc s))" and "reply_fits cmd r"
  shows "app_step s (Reply n r) =
           Some (on_reply (s\<lparr>ipc := (ipc s)\<lparr>inflight := filter (\<lambda>(m, _). m \<noteq> n) (inflight (ipc s))\<rparr>\<rparr>) cmd r)"
proof -
  from assms(1) have "ipc_ok (ipc s)" by (simp add: app_inv_def)
  from settle_inflight [OF this assms(2)] assms(3) show ?thesis
    by (simp add: app_reply_def)
qed

lemma app_run_append:
  "app_run (es @ fs) = (case app_run es of None \<Rightarrow> None | Some s \<Rightarrow> run_opt app_step s fs)"
  by (simp add: app_run_def run_opt_append)

lemma app_step_effects:
  "app_step s e = Some s' \<Longrightarrow> effects (sub s') = effects (sub s) + (if e = AppMount then 1 else 0)"
proof (cases e)
  case AppUnmount
  assume "app_step s e = Some s'"
  with AppUnmount show ?thesis
    by (auto simp: app_unmount_def effect_cleanup_def split: if_splits option.splits)
next
  case (ListenResolves k)
  assume "app_step s e = Some s'"
  with ListenResolves show ?thesis
    by (auto simp: listen_resolve_def bus_listen_def split: if_splits prod.splits)
next
  case (Reply n r)
  assume "app_step s e = Some s'"
  with Reply show ?thesis by (auto dest!: app_reply_Some)
qed (auto simp: app_mount_def effect_mount_def submit_generation_def split: if_splits)

lemma app_run_effects:
  "run_opt app_step s es = Some t \<Longrightarrow> effects (sub t) = effects (sub s) + count_list es AppMount"
proof (induction es arbitrary: s)
  case Nil
  then show ?case by simp
next
  case (Cons e es)
  then obtain s' where st: "app_step s e = Some s'" and r: "run_opt app_step s' es = Some t"
    by (auto split: option.splits)
  from Cons.IH [OF r] app_step_effects [OF st] show ?case by simp
qed

subsection \<open>Emissions and the abstract subscription\<close>

lemma app_run_sub_ok: "app_run es = Some s \<Longrightarrow> sub_inv (sub s) \<and> sub_res_inv (sub s)"
proof -
  assume "app_run es = Some s"
  then have "run_opt app_step init_app es = Some s" by (simp add: app_run_def)
  from app_run_sub [OF this] obtain es' where "run_opt sub_step init_sub es' = Some (sub s)"
    by (auto simp: init_app_def)
  then show ?thesis by (rule sub_run_inv2)
qed

text \<open>An emission dispatches one toast per instance of the effect whose handler is
  registered, i.e. in phase \<open>Subscribed\<close> or \<open>Leaked\<close>.\<close>

lemma backend_emit_count:
  assumes "sub_inv (sub s)" and "sub_res_inv (sub s)"
  shows "length (toasts (toaster (backend_emit s p)))
           = length (toasts (toaster s)) + length (filter registered (abs_sub (sub s)))"
  using arg_cong [OF backend_emit_toasts [of s p], of length] listeners_registered [OF assms]
  by simp

end
