(* ===== verification/Spec2Isabelle.thy ===== *)
theory Spec2Isabelle
  imports App "HOL-Library.Multiset"
begin

text \<open>
  \<^bold>\<open>A verification model of the Diva desktop front end.\<close>

  \<^bold>\<open>The program.\<close> Diva (src/src) is a React front end of a Tauri application. The user
  picks a video (\<open>handleButtonClick\<close>), sets the clip parameters with the controls of
  \<open>VideoControls\<close> (components/macro/actionSelector.tsx) and presses "Generate clips"
  (\<open>submitGeneration\<close>), which sends \<open>invoke("generate_cuts", { reqData })\<close> to the
  backend and shows a toast when the promise settles. \<open>PreviewOperations\<close> fetches
  \<open>invoke("projects")\<close> once per mount and renders one \<open>ProjectCard\<close>
  (components/macro/project-card.tsx) per project. \<open>App\<close> subscribes, in a
  \<open>useEffect\<close>, to the backend's \<open>"error"\<close> event channel and shows a toast per event.
  The components interact through React state cells, promises that settle later, the
  event bus and the global toast queue of the sonner library.

  \<^bold>\<open>The theories.\<close>
  \<^item> Prelude: JavaScript conventions used by the code (\<open>arr[i]\<close> as \<open>js_index\<close>,
    \<open>||\<close> on strings, \<open>split\<close>/\<open>pop\<close>, \<open>toUpperCase\<close>, number printing), clamping, and
    \<open>run_opt\<close>, the run of a partial step function over an event list, with its append
    and invariant lemmas.
  \<^item> Request (GenerationRequestBuilder): \<open>gen_shape\<close> is \<open>GenShape\<close>, \<open>form_state\<close> the six
    \<open>useState\<close> cells of \<open>OperationInitializer\<close>, \<open>build_req\<close> the \<open>reqData\<close> literal,
    \<open>handle_file_pick\<close> and \<open>file_label\<close> the file picker result and the file line.
    \<open>request_ok\<close> is the spec's contract for a request (section 3), not code.
  \<^item> Controls (VideoControls): \<open>render_control_panel\<close>, \<open>click_control\<close>,
    \<open>control_buttons\<close>, \<open>caption_items\<close>, \<open>count_label\<close>, the amount slider handler
    \<open>on_amount_change\<close>, and \<open>ui_step\<close>, one user interaction with the form. Radix's slider
    is modelled from its documented behaviour as \<open>slider_move\<close> (clamp to
    \<open>[min, max]\<close>, step 1, values kept sorted). \<open>form_inv\<close> is the form invariant.
  \<^item> Notify (NotificationDispatcher): the three toast call sites \<open>event_toast\<close>,
    \<open>success_toast\<close>, \<open>failure_toast\<close>; sonner's queue (\<open>dispatch\<close>, lifetime
    \<open>toast_visible\<close>, action click \<open>click_action\<close>) modelled from its documentation.
  \<^item> Events (EventSubscription): the Tauri bus (\<open>bus_listen\<close>, \<open>bus_unlisten\<close>,
    \<open>bus_emit\<close>, from its documentation) and the effect of \<open>App\<close>: \<open>effect_mount\<close> starts
    an instance whose \<open>listen\<close> is in flight, \<open>listen_resolve\<close> assigns that instance's
    \<open>unlisten\<close>, \<open>effect_cleanup\<close> is \<open>if (unlisten) unlisten()\<close>. \<open>sub_inv\<close> and
    \<open>sub_res_inv\<close> are its well-formedness invariants (fresh distinct listener ids, one
    owner per listener, resolved instances hold their \<open>unlisten\<close>). The abstract
    specification is a machine over one \<open>phase\<close> per instance (\<open>Listening\<close>,
    \<open>Subscribed\<close>, \<open>Orphaned\<close>, \<open>Leaked\<close>, \<open>Closed\<close>) with step \<open>phase_step\<close>;
    \<open>abs_sub\<close> reads the phases off the concrete state.
  \<^item> Projects (ProjectStore, view side): \<open>project\<close>, \<open>status\<close>, \<open>project_card\<close>
    (\<open>ProjectCard\<close>), \<open>preview_view\<close> (\<open>PreviewOperations\<close>' render).
  \<^item> Gateway (CommandGateway): Tauri \<open>invoke\<close> as a list of calls in flight, each answered
    later in any order (\<open>invoke\<close>, \<open>settle\<close>), with the backend's answer types
    \<open>reply_fits\<close> (spec section 6); \<open>ipc_ok\<close> is its invariant.
  \<^item> App: the whole tree as one step function \<open>app_step\<close> over \<open>app_event\<close>s (mount,
    unmount, a promise settling, a user interaction, a backend emission, a toast action,
    time passing). \<open>on_generate_reply\<close> and \<open>on_projects_reply\<close> are the continuations
    of the two \<open>invoke\<close> calls after their \<open>await\<close>; \<open>on_reply\<close> resumes the one of the
    settled call. \<open>backend_emit\<close> is the event handler. Unenabled events are \<open>None\<close>, so every reachable
    state is \<open>app_run es = Some s\<close> for an event list \<open>es\<close>: the order of promise
    settlements, user actions and emissions is the scheduler's choice, which the list
    records. \<open>app_inv\<close> (form in range, \<open>sub_inv\<close>, \<open>ipc_ok\<close>, every request in
    flight meets the contract) holds in every reachable state (\<open>app_run_inv\<close>).
  \<^item> This theory: the properties that span components.

  \<^bold>\<open>What is proved.\<close> Every request sent meets the contract (C1) because the form stays
  within the widget ranges (C2, C16), and no setting of the form is lost in the request
  (C12), although the selected file is (C13). The error subscription leaks its handler
  when the view is torn down before \<open>listen\<close> resolves (C3) and releases it for good
  otherwise (C4). The effect refines the per-instance phase machine on every event
  sequence, enabledness included (C5). An emission toasts once per instance in a
  registered phase (C6), hence at most once per mount (C19), and twice after React's
  development double mount (C25). Command outcomes: a rejected submission changes
  nothing but the toasts (C7), an acknowledged one shows exactly one toast (C8), a fetched
  list replaces the snapshot wholesale (C9), a failed fetch keeps it and is not reported
  (C10), an answer for a gone mount is dropped (C11). Component properties: the controls
  (C14, C15, C26), the cards (C17), the toast lifetimes (C18), the toast actions that only
  dismiss (C20), submission without a file (C21), the mount (C22), the file line (C23).
  Interleavings: a submission's outcome and an error event commute up to toast order
  (C24).

  \<^bold>\<open>Bounds, fuel, termination.\<close> The code has no loop: every function of the model is
  structurally recursive (\<open>fun\<close>/\<open>primrec\<close> over lists, strings, or \<open>n div 10\<close> for
  the digits), so no fuel is used. Non-termination of the environment (a promise that
  never settles) is a run that never contains the settling event.

  \<^bold>\<open>Not modelled.\<close> Markup and styling, the \<open>Header\<close> component, the native file dialog
  beyond its result, \<open>formatDistanceToNow\<close>, the card dropdown (its items have no
  handlers), the textual date of the toasts (kept as a time stamp), sonner's stacking of
  more than three toasts. JavaScript numbers are integers here (slider step 1).

  \<^bold>\<open>Further work.\<close> Toast expiry over \<open>Tick\<close> events at the level of the whole
  application, and the hover tooltip of \<open>VideoControls\<close> as a property of
  \<open>ui_step\<close>.
\<close>

section \<open>Submission: the request contract\<close>

text \<open>C1. Every \<open>generate_cuts\<close> request the program sends meets the spec's contract for a
  generation request: both length bounds present with \<open>20 \<le> minLength \<le> maxLength \<le> 180\<close>,
  a caption font of the fixed set, and \<open>1 \<le> quantity \<le> 24\<close>. The code validates
  nothing; the contract holds because the only way to change the form is through the
  sliders and the select.\<close>

theorem submitted_request_meets_contract:
  assumes "app_run es = Some s" and "GenerateCuts r \<in> set (calls_of (ipc s))"
  shows "request_ok r"
  using app_run_inv [OF assms(1)] assms(2) by (simp add: app_inv_def)

theorem submitted_request_meets_contract_witness:
  "map_option (\<lambda>s. calls_of (ipc s)) (app_run [AppMount, ClickGenerate])
     = Some [ListProjects 1, GenerateCuts (build_req init_ui)]
   \<and> request_ok (build_req init_ui)"
proof -
  have ev: "map_option (\<lambda>s. calls_of (ipc s)) (app_run [AppMount, ClickGenerate])
     = Some [ListProjects 1, GenerateCuts (build_req init_ui)]" by code_simp
  then obtain s where s: "app_run [AppMount, ClickGenerate] = Some s"
    and c: "calls_of (ipc s) = [ListProjects 1, GenerateCuts (build_req init_ui)]"
    by (cases "app_run [AppMount, ClickGenerate]") auto
  have "request_ok (build_req init_ui)"
    by (rule submitted_request_meets_contract [OF s]) (simp add: c)
  with ev show ?thesis by simp
qed

text \<open>C2. In every reachable state the form holds exactly two ordered lengths within
  \<open>[20, 180]\<close>, a count within \<open>[1, 24]\<close> and a font offered by the select.\<close>

theorem reachable_form_in_range:
  assumes "app_run es = Some s"
  shows "(\<exists>lo hi. videoLength (ui s) = [lo, hi] \<and> 20 \<le> lo \<and> lo \<le> hi \<and> hi \<le> 180)
         \<and> 1 \<le> videoCount (ui s) \<and> videoCount (ui s) \<le> 24
         \<and> captionFontSel (ui s) \<in> set caption_items"
proof -
  from app_run_inv [OF assms] have "form_inv (ui s)" by (simp add: app_inv_def)
  then show ?thesis by (auto simp: form_inv_def split: list.splits)
qed

theorem reachable_form_in_range_witness:
  "map_option (\<lambda>s. (videoLength (ui s), videoCount (ui s)))
     (app_run [AppMount, UI (ClickControl ''length''), UI (SlideLength 0 250)]) = Some ([180, 180], 12)
   \<and> (\<exists>lo hi. [180, 180] = [lo, hi :: int] \<and> 20 \<le> lo \<and> lo \<le> hi \<and> hi \<le> 180)"
proof -
  let ?es = "[AppMount, UI (ClickControl ''length''), UI (SlideLength 0 250)]"
  have ev: "map_option (\<lambda>s. (videoLength (ui s), videoCount (ui s))) (app_run ?es) = Some ([180, 180], 12)"
    by code_simp
  then obtain s where s: "app_run ?es = Some s" and v: "videoLength (ui s) = [180, 180]"
    by (cases "app_run ?es") auto
  from reachable_form_in_range [OF s] v ev show ?thesis by simp
qed

section \<open>The error-event subscription\<close>

text \<open>C3. A cleanup that runs before \<open>listen\<close> has resolved leaks the listener: when
  the view is unmounted while the subscription is still being set up, the handler is
  registered afterwards, is never removed, and every later \<open>"error"\<close> event still
  dispatches a toast for it, after teardown.\<close>

theorem unmount_before_listen_leaks:
  assumes run: "app_run es = Some s" and m: "mounted s"
    and k: "k = effects (sub s) - 1" and pend: "k \<in> set (pending (sub s))"
    and later: "app_run (es @ [AppUnmount, ListenResolves k] @ fs) = Some t"
  shows "k \<in> set (cleaned (sub t)) \<and>
         (\<exists>lid. unlisten_var (sub t) k = Some lid \<and>
                event_toast lid p (now t) \<in> set (map snd (toasts (toaster (backend_emit t p)))))"
proof -
  from later run obtain s1 s2 where u: "app_step s AppUnmount = Some s1"
    and r: "app_step s1 (ListenResolves k) = Some s2" and rest: "run_opt app_step s2 fs = Some t"
    by (auto simp: app_run_append split: option.splits)
  from u m k have c: "effect_cleanup (sub s) k = Some (sub s1)"
    by (auto simp: app_unmount_def)
  from r have l: "listen_resolve (sub s1) k = Some (sub s2)" by auto
  from app_run_sub [OF rest] obtain es' where es': "run_opt sub_step (sub s2) es' = Some (sub t)"
    by blast
  from app_run_inv [OF run] have "sub_inv (sub s)" by (simp add: app_inv_def)
  from cleanup_before_resolve_leaks [OF this pend c l es'] obtain lid
    where "k \<in> set (cleaned (sub t))" "unlisten_var (sub t) k = Some lid"
      "lid \<in> set (listeners (sbus (sub t)))" by blast
  then show ?thesis by (auto simp: backend_emit_toasts)
qed

theorem unmount_before_listen_leaks_witness:
  "\<exists>s t. app_run [AppMount] = Some s \<and> mounted s \<and> 0 = effects (sub s) - 1
     \<and> 0 \<in> set (pending (sub s)) \<and> app_run [AppMount, AppUnmount, ListenResolves 0] = Some t
     \<and> \<not> mounted t
     \<and> (\<exists>lid. unlisten_var (sub t) 0 = Some lid \<and>
          event_toast lid ''decode failure'' (now t)
            \<in> set (map snd (toasts (toaster (backend_emit t ''decode failure'')))))"
proof -
  have "app_run [AppMount] \<noteq> None" by code_simp
  then obtain s where s: "app_run [AppMount] = Some s" by blast
  have "map_option (\<lambda>s. mounted s \<and> 0 = effects (sub s) - 1 \<and> 0 \<in> set (pending (sub s)))
          (app_run [AppMount]) = Some True" by code_simp
  with s have hs: "mounted s" "0 = effects (sub s) - 1" "0 \<in> set (pending (sub s))" by simp_all
  have "app_run [AppMount, AppUnmount, ListenResolves 0] \<noteq> None" by code_simp
  then obtain t where t: "app_run [AppMount, AppUnmount, ListenResolves 0] = Some t" by blast
  have "map_option mounted (app_run [AppMount, AppUnmount, ListenResolves 0]) = Some False"
    by code_simp
  with t have nm: "\<not> mounted t" by simp
  from t have t': "app_run ([AppMount] @ [AppUnmount, ListenResolves 0] @ []) = Some t" by simp
  from unmount_before_listen_leaks [OF s hs(1) hs(2) hs(3) t', of "''decode failure''"]
  show ?thesis using s hs t nm by blast
qed

text \<open>C4. A cleanup that runs after \<open>listen\<close> has resolved removes the handler for good:
  whatever happens afterwards (remounts included), that listener is never registered
  again, so no later \<open>"error"\<close> event reaches it.\<close>

theorem unmount_after_listen_releases:
  assumes run: "app_run es = Some s" and m: "mounted s"
    and uv: "unlisten_var (sub s) (effects (sub s) - 1) = Some lid"
    and later: "app_run (es @ [AppUnmount] @ fs) = Some t"
  shows "lid \<notin> set (listeners (sbus (sub t)))"
proof -
  from later run obtain s1 where u: "app_step s AppUnmount = Some s1"
    and rest: "run_opt app_step s1 fs = Some t"
    by (auto simp: app_run_append split: option.splits)
  from u m have c: "effect_cleanup (sub s) (effects (sub s) - 1) = Some (sub s1)"
    by (auto simp: app_unmount_def)
  from app_run_sub [OF rest] obtain es' where es': "run_opt sub_step (sub s1) es' = Some (sub t)"
    by blast
  from app_run_inv [OF run] have "sub_inv (sub s)" by (simp add: app_inv_def)
  from cleanup_after_resolve_no_leak [OF this uv c es'] show ?thesis .
qed

theorem unmount_after_listen_releases_witness:
  "\<exists>s t. app_run [AppMount, ListenResolves 0] = Some s \<and> mounted s
     \<and> unlisten_var (sub s) (effects (sub s) - 1) = Some 0
     \<and> app_run [AppMount, ListenResolves 0, AppUnmount] = Some t
     \<and> 0 \<notin> set (listeners (sbus (sub t)))"
proof -
  have "app_run [AppMount, ListenResolves 0] \<noteq> None" by code_simp
  then obtain s where s: "app_run [AppMount, ListenResolves 0] = Some s" by blast
  have "map_option (\<lambda>s. mounted s \<and> unlisten_var (sub s) (effects (sub s) - 1) = Some 0)
          (app_run [AppMount, ListenResolves 0]) = Some True" by code_simp
  with s have hs: "mounted s" "unlisten_var (sub s) (effects (sub s) - 1) = Some 0" by simp_all
  have "app_run [AppMount, ListenResolves 0, AppUnmount] \<noteq> None" by code_simp
  then obtain t where t: "app_run [AppMount, ListenResolves 0, AppUnmount] = Some t" by blast
  then have t': "app_run ([AppMount, ListenResolves 0] @ [AppUnmount] @ []) = Some t" by simp
  from unmount_after_listen_releases [OF s hs t'] s hs t show ?thesis by blast
qed

text \<open>C6. One toast per registered handler: from any reachable state, an \<open>"error"\<close>
  emission dispatches exactly as many toasts as there are effect instances in phase
  \<open>Subscribed\<close> or \<open>Leaked\<close> of the abstract subscription (theory Events), and each of
  them carries the event's payload.\<close>

theorem emission_toast_per_registered_instance:
  assumes run: "app_run es = Some s"
  shows "length (toasts (toaster (backend_emit s p)))
           = length (toasts (toaster s)) + length (filter registered (abs_sub (sub s)))
         \<and> (\<forall>t \<in> set (drop (length (toasts (toaster s))) (map snd (toasts (toaster (backend_emit s p))))).
              description t = DescEvent p (now s))"
proof
  from app_run_sub_ok [OF run] show "length (toasts (toaster (backend_emit s p)))
      = length (toasts (toaster s)) + length (filter registered (abs_sub (sub s)))"
    by (blast intro: backend_emit_count)
  show "\<forall>t \<in> set (drop (length (toasts (toaster s))) (map snd (toasts (toaster (backend_emit s p))))).
          description t = DescEvent p (now s)"
    by (auto simp: backend_emit_toasts event_toast_def)
qed

theorem emission_toast_per_registered_instance_witness:
  "\<exists>s. app_run [AppMount, ListenResolves 0] = Some s \<and> abs_sub (sub s) = [Subscribed]
     \<and> length (toasts (toaster (backend_emit s ''decode failure''))) = length (toasts (toaster s)) + 1"
proof -
  have "app_run [AppMount, ListenResolves 0] \<noteq> None" by code_simp
  then obtain s where s: "app_run [AppMount, ListenResolves 0] = Some s" by blast
  have "map_option (\<lambda>s. abs_sub (sub s)) (app_run [AppMount, ListenResolves 0]) = Some [Subscribed]"
    by code_simp
  with s have a: "abs_sub (sub s) = [Subscribed]" by simp
  from emission_toast_per_registered_instance [OF s, of "''decode failure''"] a s show ?thesis
    by (simp add: registered_def)
qed

section \<open>Command outcomes\<close>

text \<open>C7. A rejected \<open>generate_cuts\<close> leaves the project list, the form and the
  subscription as they were and dispatches exactly one failure toast carrying the
  error's text; the call is removed from the calls in flight.\<close>

theorem failed_submit_keeps_state:
  assumes run: "app_run es = Some s" and fl: "(n, GenerateCuts r) \<in> set (inflight (ipc s))"
  shows "\<exists>s'. app_step s (Reply n (ReplyError e)) = Some s'
           \<and> projects s' = projects s \<and> ui s' = ui s \<and> sub s' = sub s
           \<and> n \<notin> fst ` set (inflight (ipc s'))
           \<and> map snd (toasts (toaster s')) = map snd (toasts (toaster s)) @ [failure_toast e (now s)]"
  using app_reply_inflight [OF app_run_inv [OF run] fl, of "ReplyError e"] by auto

theorem failed_submit_keeps_state_witness:
  "\<exists>s. app_run [AppMount, ClickGenerate] = Some s
     \<and> (1, GenerateCuts (build_req init_ui)) \<in> set (inflight (ipc s))
     \<and> (\<exists>s'. app_step s (Reply 1 (ReplyError ''no backend'')) = Some s' \<and> projects s' = projects s)"
proof -
  have "app_run [AppMount, ClickGenerate] \<noteq> None" by code_simp
  then obtain s where s: "app_run [AppMount, ClickGenerate] = Some s" by blast
  have "map_option (\<lambda>s. (1, GenerateCuts (build_req init_ui)) \<in> set (inflight (ipc s)))
          (app_run [AppMount, ClickGenerate]) = Some True" by code_simp
  with s have fl: "(1, GenerateCuts (build_req init_ui)) \<in> set (inflight (ipc s))" by simp
  from failed_submit_keeps_state [OF s fl, of "''no backend''"] s fl show ?thesis by blast
qed

text \<open>C8. Scenario A of the spec: an acknowledged \<open>generate_cuts\<close> dispatches exactly one
  success toast and leaves the project list unchanged until the next refresh (the code
  issues no refresh after a submission).\<close>

theorem acknowledged_submit_one_toast:
  assumes run: "app_run es = Some s" and fl: "(n, GenerateCuts r) \<in> set (inflight (ipc s))"
  shows "\<exists>s'. app_step s (Reply n ReplyAck) = Some s'
           \<and> projects s' = projects s \<and> ui s' = ui s \<and> sub s' = sub s
           \<and> n \<notin> fst ` set (inflight (ipc s'))
           \<and> map snd (toasts (toaster s')) = map snd (toasts (toaster s)) @ [success_toast (now s)]"
  using app_reply_inflight [OF app_run_inv [OF run] fl, of ReplyAck] by auto

theorem acknowledged_submit_one_toast_witness:
  "\<exists>s. app_run [AppMount, ClickGenerate] = Some s
     \<and> (1, GenerateCuts (build_req init_ui)) \<in> set (inflight (ipc s))
     \<and> (\<exists>s'. app_step s (Reply 1 ReplyAck) = Some s' \<and> projects s' = projects s)"
proof -
  have "app_run [AppMount, ClickGenerate] \<noteq> None" by code_simp
  then obtain s where s: "app_run [AppMount, ClickGenerate] = Some s" by blast
  have "map_option (\<lambda>s. (1, GenerateCuts (build_req init_ui)) \<in> set (inflight (ipc s)))
          (app_run [AppMount, ClickGenerate]) = Some True" by code_simp
  with s have fl: "(1, GenerateCuts (build_req init_ui)) \<in> set (inflight (ipc s))" by simp
  from acknowledged_submit_one_toast [OF s fl] s fl show ?thesis by blast
qed

section \<open>The project list\<close>

text \<open>C9. A successful \<open>projects\<close> answer to the current mount replaces the snapshot
  wholesale: the view then shows exactly the returned projects, in the returned order.\<close>

theorem projects_reply_replaces_snapshot:
  assumes run: "app_run es = Some s" and m: "mounted s"
    and fl: "(n, ListProjects (gen s)) \<in> set (inflight (ipc s))"
  shows "\<exists>s'. app_step s (Reply n (ReplyProjects ps)) = Some s' \<and> projects s' = Some ps
           \<and> preview_view (projects s') = Cards (map project_card ps)"
  using app_reply_inflight [OF app_run_inv [OF run] fl, of "ReplyProjects ps"] m by auto

theorem projects_reply_replaces_snapshot_witness:
  "\<exists>s. app_run [AppMount] = Some s \<and> mounted s \<and> (0, ListProjects (gen s)) \<in> set (inflight (ipc s))
     \<and> (\<exists>s'. app_step s (Reply 0 (ReplyProjects [])) = Some s' \<and> projects s' = Some [])"
proof -
  have "app_run [AppMount] \<noteq> None" by code_simp
  then obtain s where s: "app_run [AppMount] = Some s" by blast
  have "map_option (\<lambda>s. mounted s \<and> (0, ListProjects (gen s)) \<in> set (inflight (ipc s)))
          (app_run [AppMount]) = Some True" by code_simp
  with s have h: "mounted s" "(0, ListProjects (gen s)) \<in> set (inflight (ipc s))" by simp_all
  from projects_reply_replaces_snapshot [OF s h, of "[]"] s h show ?thesis by blast
qed

text \<open>C10. A failed \<open>projects\<close> call keeps the previous snapshot (stale, not cleared) and
  dispatches no notification: the rejection escapes the effect's async function
  unhandled.\<close>

theorem projects_failure_keeps_snapshot:
  assumes run: "app_run es = Some s" and fl: "(n, ListProjects g) \<in> set (inflight (ipc s))"
  shows "\<exists>s'. app_step s (Reply n (ReplyError e)) = Some s' \<and> projects s' = projects s
           \<and> toaster s' = toaster s \<and> unhandled s' = unhandled s @ [e]"
  using app_reply_inflight [OF app_run_inv [OF run] fl, of "ReplyError e"] by auto

theorem projects_failure_keeps_snapshot_witness:
  "\<exists>s. app_run [AppMount] = Some s \<and> (0, ListProjects 1) \<in> set (inflight (ipc s))
     \<and> (\<exists>s'. app_step s (Reply 0 (ReplyError ''offline'')) = Some s' \<and> projects s' = projects s)"
proof -
  have "app_run [AppMount] \<noteq> None" by code_simp
  then obtain s where s: "app_run [AppMount] = Some s" by blast
  have "map_option (\<lambda>s. (0, ListProjects 1) \<in> set (inflight (ipc s))) (app_run [AppMount]) = Some True"
    by code_simp
  with s have h: "(0, ListProjects 1) \<in> set (inflight (ipc s))" by simp
  from projects_failure_keeps_snapshot [OF s h, of "''offline''"] s h show ?thesis by blast
qed

text \<open>C11. An answer to a \<open>projects\<close> call of a mount that is gone (unmounted, or replaced
  by a later mount) is discarded: the current snapshot is untouched.\<close>

theorem stale_projects_reply_discarded:
  assumes run: "app_run es = Some s" and fl: "(n, ListProjects g) \<in> set (inflight (ipc s))"
    and stale: "g \<noteq> gen s \<or> \<not> mounted s"
  shows "\<exists>s'. app_step s (Reply n (ReplyProjects ps)) = Some s' \<and> projects s' = projects s"
  using app_reply_inflight [OF app_run_inv [OF run] fl, of "ReplyProjects ps"] stale by auto

theorem stale_projects_reply_discarded_witness:
  "\<exists>s. app_run [AppMount, AppUnmount] = Some s \<and> (0, ListProjects 1) \<in> set (inflight (ipc s))
     \<and> \<not> mounted s
     \<and> (\<exists>s'. app_step s (Reply 0 (ReplyProjects [])) = Some s' \<and> projects s' = projects s)"
proof -
  have "app_run [AppMount, AppUnmount] \<noteq> None" by code_simp
  then obtain s where s: "app_run [AppMount, AppUnmount] = Some s" by blast
  have "map_option (\<lambda>s. (0, ListProjects 1) \<in> set (inflight (ipc s)) \<and> \<not> mounted s)
          (app_run [AppMount, AppUnmount]) = Some True" by code_simp
  with s have h: "(0, ListProjects 1) \<in> set (inflight (ipc s))" "\<not> mounted s" by simp_all
  from stale_projects_reply_discarded [OF s h(1), of "[]"] s h show ?thesis by blast
qed

text \<open>C12. No setting is lost on the way to the backend: two reachable forms that yield
  the same request hold the same lengths, context, caption font and count. The request
  omits only the selected file (C13) and the open panel.\<close>

theorem request_determines_settings:
  assumes "app_run es = Some s" and "app_run es' = Some s'"
    and eq: "build_req (ui s) = build_req (ui s')"
  shows "videoLength (ui s) = videoLength (ui s') \<and> contextStr (ui s) = contextStr (ui s')
         \<and> captionFontSel (ui s) = captionFontSel (ui s') \<and> videoCount (ui s) = videoCount (ui s')"
proof -
  have two: "\<exists>lo hi. videoLength (ui t) = [lo, hi]" if "app_run fs = Some t" for fs t
    using app_run_inv [OF that] by (auto simp: app_inv_def form_inv_def split: list.splits)
  obtain lo hi lo' hi' where v: "videoLength (ui s) = [lo, hi]" and v': "videoLength (ui s') = [lo', hi']"
    using two [OF assms(1)] two [OF assms(2)] by blast
  from arg_cong [OF eq, of minLength] arg_cong [OF eq, of maxLength] v v' have "lo = lo'" "hi = hi'"
    by simp_all
  with v v' arg_cong [OF eq, of extraContext] arg_cong [OF eq, of captionFont] arg_cong [OF eq, of quantity]
  show ?thesis by simp
qed

theorem request_determines_settings_witness:
  "\<exists>s s'. app_run [AppMount] = Some s \<and> app_run [AppMount, UI (ClickControl ''amount'')] = Some s'
     \<and> build_req (ui s) = build_req (ui s') \<and> videoLength (ui s) = videoLength (ui s')"
proof -
  let ?es = "[AppMount, UI (ClickControl ''amount'')]"
  have "app_run [AppMount] \<noteq> None" "app_run ?es \<noteq> None" by code_simp+
  then obtain s s' where s: "app_run [AppMount] = Some s" and s': "app_run ?es = Some s'" by blast
  have "map_option (\<lambda>s. build_req (ui s)) (app_run [AppMount]) = Some (build_req init_ui)"
    "map_option (\<lambda>s. build_req (ui s)) (app_run ?es) = Some (build_req init_ui)" by code_simp+
  with s s' have eq: "build_req (ui s) = build_req (ui s')" by simp
  from request_determines_settings [OF s s' eq] s s' eq show ?thesis by blast
qed

section \<open>Delivery, actions and lifecycle\<close>

text \<open>C19. At-most-once delivery per mount: one \<open>"error"\<close> event dispatches at most as many
  toasts as the tree has been mounted; with a single mount, at most one.\<close>

theorem error_toasts_bounded_by_mounts:
  assumes "app_run es = Some s"
  shows "length (toasts (toaster (backend_emit s p))) \<le> length (toasts (toaster s)) + count_list es AppMount"
proof -
  from app_run_inv [OF assms] have "sub_inv (sub s)" by (simp add: app_inv_def)
  then have le: "length (listeners (sbus (sub s))) \<le> effects (sub s)" by (rule sub_inv_listeners_le)
  from assms have "effects (sub s) = count_list es AppMount"
    using app_run_effects [of init_app es s] by (simp add: app_run_def init_app_def init_sub_def)
  with le have "length (listeners (sbus (sub s))) \<le> count_list es AppMount" by simp
  moreover have "length (toasts (toaster (backend_emit s p)))
      = length (toasts (toaster s)) + length (listeners (sbus (sub s)))"
    using arg_cong [OF backend_emit_toasts [of s p], of length] by simp
  ultimately show ?thesis by simp
qed

theorem error_toasts_bounded_by_mounts_witness:
  "\<exists>s. app_run [AppMount, ListenResolves 0] = Some s
     \<and> length (toasts (toaster (backend_emit s ''x''))) \<le> length (toasts (toaster s)) + 1"
proof -
  have "app_run [AppMount, ListenResolves 0] \<noteq> None" by code_simp
  then obtain s where s: "app_run [AppMount, ListenResolves 0] = Some s" by blast
  from error_toasts_bounded_by_mounts [OF s, of "''x''"] s show ?thesis by auto
qed

text \<open>C20. The "Retry" action of a failure toast does not retry: clicking a toast's action
  only dismisses the toast; no call is issued and no other state changes.\<close>

theorem toast_action_only_dismisses:
  assumes "app_step s (ClickToastAction i) = Some s'"
  shows "ipc s' = ipc s \<and> projects s' = projects s \<and> ui s' = ui s \<and> sub s' = sub s
         \<and> i \<notin> fst ` set (toasts (toaster s'))"
  using assms by (auto simp: click_action_def split: if_splits)

theorem toast_action_only_dismisses_witness:
  "\<exists>s s'. app_run [AppMount, ClickGenerate, Reply 1 (ReplyError ''busy'')] = Some s
     \<and> app_step s (ClickToastAction 0) = Some s' \<and> ipc s' = ipc s"
proof -
  let ?es = "[AppMount, ClickGenerate, Reply 1 (ReplyError ''busy'')]"
  have "app_run ?es \<noteq> None" by code_simp
  then obtain s where s: "app_run ?es = Some s" by blast
  have "map_option (\<lambda>s. app_step s (ClickToastAction 0) \<noteq> None) (app_run ?es) = Some True"
    by code_simp
  with s have "app_step s (ClickToastAction 0) \<noteq> None" by simp
  then obtain s' where s': "app_step s (ClickToastAction 0) = Some s'" by blast
  from toast_action_only_dismisses [OF s'] s s' show ?thesis by blast
qed

text \<open>C21. Nothing stops a submission without a selected file: the "Generate clips"
  button always sends a request, although the spec makes the UI responsible for preventing
  it.\<close>

theorem submit_without_file:
  assumes "app_run es = Some s" and "mounted s" and "selectedFile (ui s) = None"
  shows "\<exists>s'. app_step s ClickGenerate = Some s' \<and> GenerateCuts (build_req (ui s)) \<in> set (calls_of (ipc s'))"
  using assms(2) by (simp add: submit_generation_def)

theorem submit_without_file_witness:
  "\<exists>s. app_run [AppMount] = Some s \<and> mounted s \<and> selectedFile (ui s) = None
     \<and> (\<exists>s'. app_step s ClickGenerate = Some s')"
proof -
  have "app_run [AppMount] \<noteq> None" by code_simp
  then obtain s where s: "app_run [AppMount] = Some s" by blast
  have "map_option (\<lambda>s. mounted s \<and> selectedFile (ui s) = None) (app_run [AppMount]) = Some True"
    by code_simp
  with s have h: "mounted s" "selectedFile (ui s) = None" by simp_all
  from submit_without_file [OF s h] s h show ?thesis by blast
qed

text \<open>C22. A mount starts from fresh state: the form holds its initial values, the project
  list is undefined (the placeholder is shown), exactly one \<open>projects\<close> call is issued for
  this mount, and a new subscription instance starts its \<open>listen\<close>.\<close>

theorem mount_fresh_state:
  assumes "app_step s AppMount = Some s'"
  shows "ui s' = init_ui \<and> preview_view (projects s') = Placeholder
         \<and> calls_of (ipc s') = calls_of (ipc s) @ [ListProjects (gen s')]
         \<and> pending (sub s') = pending (sub s) @ [effects (sub s)]"
  using assms by (auto simp: app_mount_def effect_mount_def split: if_splits)

theorem mount_fresh_state_witness:
  "\<exists>s'. app_step init_app AppMount = Some s' \<and> calls_of (ipc s') = [ListProjects 1]"
proof -
  have "app_step init_app AppMount \<noteq> None" by (simp add: init_app_def)
  then obtain s' where s': "app_step init_app AppMount = Some s'" by blast
  from mount_fresh_state [OF s'] s' show ?thesis
    by (auto simp: init_app_def init_ipc_def calls_of_def app_mount_def)
qed

section \<open>Interleavings\<close>

text \<open>C24. Event delivery and command completion are unordered (spec section 5), and the
  program does not depend on their order: acknowledging a submission and receiving an
  error event, in either order, give the same state up to the order of the toasts, and
  the same toasts.\<close>

theorem reply_emit_commute:
  assumes run: "app_run es = Some s" and fl: "(n, GenerateCuts r) \<in> set (inflight (ipc s))"
  shows "\<exists>t1 t2. run_opt app_step s [Reply n ReplyAck, BackendEmit p] = Some t1
           \<and> run_opt app_step s [BackendEmit p, Reply n ReplyAck] = Some t2
           \<and> t1\<lparr>toaster := toaster t2\<rparr> = t2
           \<and> mset (map snd (toasts (toaster t1))) = mset (map snd (toasts (toaster t2)))"
proof -
  have inv: "app_inv s" by (rule app_run_inv [OF run])
  let ?c = "(ipc s)\<lparr>inflight := filter (\<lambda>(m, _). m \<noteq> n) (inflight (ipc s))\<rparr>"
  have r1: "app_step s (Reply n ReplyAck) = Some (on_reply (s\<lparr>ipc := ?c\<rparr>) (GenerateCuts r) ReplyAck)"
    by (rule app_reply_inflight [OF inv fl]) simp
  have inv2: "app_inv (backend_emit s p)" by (rule app_inv_step [OF inv, of "BackendEmit p"]) simp
  have fl2: "(n, GenerateCuts r) \<in> set (inflight (ipc (backend_emit s p)))" using fl by simp
  have r2: "app_step (backend_emit s p) (Reply n ReplyAck)
      = Some (on_reply ((backend_emit s p)\<lparr>ipc := ?c\<rparr>) (GenerateCuts r) ReplyAck)"
    using app_reply_inflight [OF inv2 fl2] by simp
  let ?evs = "map (\<lambda>lid. event_toast lid p (now s)) (listeners (sbus (sub s)))"
  define t1 where "t1 = backend_emit (on_reply (s\<lparr>ipc := ?c\<rparr>) (GenerateCuts r) ReplyAck) p"
  define t2 where "t2 = on_reply ((backend_emit s p)\<lparr>ipc := ?c\<rparr>) (GenerateCuts r) ReplyAck"
  have e1: "run_opt app_step s [Reply n ReplyAck, BackendEmit p] = Some t1"
    using r1 by (simp add: t1_def)
  have e2: "run_opt app_step s [BackendEmit p, Reply n ReplyAck] = Some t2"
    using r2 by (simp add: t2_def)
  have same: "t1\<lparr>toaster := toaster t2\<rparr> = t2"
    by (simp add: t1_def t2_def backend_emit_def)
  have m1: "map snd (toasts (toaster t1)) = map snd (toasts (toaster s)) @ [success_toast (now s)] @ ?evs"
    by (simp add: t1_def backend_emit_def bus_emit_def comp_def)
  have m2: "map snd (toasts (toaster t2)) = map snd (toasts (toaster s)) @ ?evs @ [success_toast (now s)]"
    by (simp add: t2_def backend_emit_def bus_emit_def comp_def)
  have "mset (map snd (toasts (toaster t1))) = mset (map snd (toasts (toaster t2)))"
    unfolding m1 m2 by (simp add: ac_simps)
  with e1 e2 same show ?thesis by blast
qed

theorem reply_emit_commute_witness:
  "\<exists>s. app_run [AppMount, ListenResolves 0, ClickGenerate] = Some s
     \<and> (1, GenerateCuts (build_req init_ui)) \<in> set (inflight (ipc s))
     \<and> (\<exists>t1 t2. run_opt app_step s [Reply 1 ReplyAck, BackendEmit ''x''] = Some t1
          \<and> run_opt app_step s [BackendEmit ''x'', Reply 1 ReplyAck] = Some t2)"
proof -
  let ?es = "[AppMount, ListenResolves 0, ClickGenerate]"
  have "app_run ?es \<noteq> None" by code_simp
  then obtain s where s: "app_run ?es = Some s" by blast
  have "map_option (\<lambda>s. (1, GenerateCuts (build_req init_ui)) \<in> set (inflight (ipc s))) (app_run ?es)
      = Some True" by code_simp
  with s have fl: "(1, GenerateCuts (build_req init_ui)) \<in> set (inflight (ipc s))" by simp
  from reply_emit_commute [OF s fl, of "''x''"] s fl show ?thesis by blast
qed

text \<open>C25. The leak under React's development double mount (StrictMode runs mount,
  cleanup, mount before the first \<open>listen\<close> has resolved): from any reachable state with
  the tree unmounted, after that sequence and the two resolutions, the first instance is
  \<open>Leaked\<close> and the second \<open>Subscribed\<close>, so every later error event dispatches two
  toasts on top of those of earlier instances.\<close>

theorem strict_mode_double_listen:
  assumes run: "app_run es = Some s" and nm: "\<not> mounted s"
  shows "\<exists>t. app_run (es @ [AppMount, AppUnmount, AppMount, ListenResolves (effects (sub s)),
                             ListenResolves (Suc (effects (sub s)))]) = Some t
           \<and> mounted t \<and> abs_sub (sub t) = abs_sub (sub s) @ [Leaked, Subscribed]
           \<and> length (toasts (toaster (backend_emit t p)))
               = length (toasts (toaster t)) + length (filter registered (abs_sub (sub s))) + 2"
proof -
  let ?k = "effects (sub s)" and ?A = "abs_sub (sub s)"
  from app_run_sub_ok [OF run] have ok0: "sub_inv (sub s)" "sub_res_inv (sub s)" by blast+
  have len: "length ?A = ?k" by simp
  define s1 where "s1 = app_mount s"
  have st1: "app_step s AppMount = Some s1" using nm by (simp add: s1_def)
  have sub1: "sub s1 = effect_mount (sub s)" and m1: "mounted s1" and e1: "effects (sub s1) = Suc ?k"
    by (simp_all add: s1_def app_mount_def effect_mount_def)
  from sub_step_abs [OF ok0, of Mount "?A @ [Listening]"] sub1
  have a1: "abs_sub (sub s1) = ?A @ [Listening]" and ok1: "sub_inv (sub s1)" "sub_res_inv (sub s1)"
    by auto
  have "phase_step (abs_sub (sub s1)) (Cleanup ?k) = Some (?A @ [Orphaned])"
    using a1 len by (simp add: nth_append list_update_append)
  from sub_step_abs [OF ok1 this] obtain u2 where c2: "effect_cleanup (sub s1) ?k = Some u2"
    and a2: "abs_sub u2 = ?A @ [Orphaned]" and ok2: "sub_inv u2" "sub_res_inv u2" by auto
  define s2 where "s2 = s1\<lparr>sub := u2, mounted := False\<rparr>"
  have st2: "app_step s1 AppUnmount = Some s2" using m1 e1 c2 by (simp add: app_unmount_def s2_def)
  define s3 where "s3 = app_mount s2"
  have st3: "app_step s2 AppMount = Some s3" by (simp add: s2_def s3_def)
  have sub3: "sub s3 = effect_mount u2" and m3: "mounted s3" by (simp_all add: s2_def s3_def app_mount_def)
  from sub_step_abs [OF ok2, of Mount "?A @ [Orphaned, Listening]"] a2 sub3
  have a3: "abs_sub (sub s3) = ?A @ [Orphaned, Listening]" and ok3: "sub_inv (sub s3)" "sub_res_inv (sub s3)"
    by auto
  have "phase_step (abs_sub (sub s3)) (Resolve ?k) = Some (?A @ [Leaked, Listening])"
    using a3 len by (simp add: nth_append list_update_append)
  from sub_step_abs [OF ok3 this] obtain u4 where r4: "listen_resolve (sub s3) ?k = Some u4"
    and a4: "abs_sub u4 = ?A @ [Leaked, Listening]" and ok4: "sub_inv u4" "sub_res_inv u4" by auto
  define s4 where "s4 = s3\<lparr>sub := u4\<rparr>"
  have st4: "app_step s3 (ListenResolves ?k) = Some s4" using r4 by (simp add: s4_def)
  have "phase_step (abs_sub u4) (Resolve (Suc ?k)) = Some (?A @ [Leaked, Subscribed])"
    using a4 len by (simp add: nth_append list_update_append)
  from sub_step_abs [OF ok4 this] obtain u5 where r5: "listen_resolve u4 (Suc ?k) = Some u5"
    and a5: "abs_sub u5 = ?A @ [Leaked, Subscribed]" and ok5: "sub_inv u5" "sub_res_inv u5" by auto
  define s5 where "s5 = s4\<lparr>sub := u5\<rparr>"
  have st5: "app_step s4 (ListenResolves (Suc ?k)) = Some s5" using r5 by (simp add: s4_def s5_def)
  have "app_run (es @ [AppMount, AppUnmount, AppMount, ListenResolves ?k, ListenResolves (Suc ?k)]) = Some s5"
    using run st1 st2 st3 st4 st5 by (simp add: app_run_append del: app_step.simps)
  moreover have "mounted s5" using m3 by (simp add: s4_def s5_def)
  moreover have "abs_sub (sub s5) = ?A @ [Leaked, Subscribed]" using a5 by (simp add: s5_def)
  moreover have "length (toasts (toaster (backend_emit s5 p)))
      = length (toasts (toaster s5)) + length (filter registered ?A) + 2"
    using backend_emit_count [of s5 p] ok5 a5 by (simp add: s5_def registered_def)
  ultimately show ?thesis by blast
qed

theorem strict_mode_double_listen_witness:
  "\<exists>t. app_run [AppMount, AppUnmount, AppMount, ListenResolves 0, ListenResolves 1] = Some t
     \<and> abs_sub (sub t) = [Leaked, Subscribed]
     \<and> length (toasts (toaster (backend_emit t ''decode failure''))) = length (toasts (toaster t)) + 2"
proof -
  have run: "app_run [] = Some init_app" by (simp add: app_run_def)
  have nm: "\<not> mounted init_app" by (simp add: init_app_def)
  have e0: "effects (sub init_app) = 0" by (simp add: init_app_def init_sub_def)
  have a0: "abs_sub (sub init_app) = []" by (simp add: init_app_def)
  from strict_mode_double_listen [OF run nm, of "''decode failure''", unfolded e0 a0] show ?thesis
    by auto
qed

end
